theory Spec2Isabelle
  imports Complex_Main
begin

section \<open>Floating-point values\<close>

text \<open>
  The module computes on C++ \<^verbatim>\<open>float\<close> (binary32) and \<^verbatim>\<open>double\<close> (binary64) values. A
  value of either type is a finite real number, one of the two infinities, or NaN. Each
  machine operation is the exact operation on such values, given first, followed by the
  rounding to the type of its result, to nearest with ties to even. Zero carries no
  sign: a divisor \<^verbatim>\<open>-0.0\<close> is read as \<^verbatim>\<open>+0.0\<close>.
\<close>

datatype fp = Finite real | PInf | NInf | NaN

text \<open>Unary minus.\<close>

fun fneg :: "fp \<Rightarrow> fp" where
  "fneg (Finite a) = Finite (- a)"
| "fneg PInf = NInf"
| "fneg NInf = PInf"
| "fneg NaN = NaN"

text \<open>Addition: opposite infinities give NaN.\<close>

fun fadd :: "fp \<Rightarrow> fp \<Rightarrow> fp" where
  "fadd NaN _ = NaN"
| "fadd _ NaN = NaN"
| "fadd PInf NInf = NaN"
| "fadd NInf PInf = NaN"
| "fadd PInf _ = PInf"
| "fadd _ PInf = PInf"
| "fadd NInf _ = NInf"
| "fadd _ NInf = NInf"
| "fadd (Finite a) (Finite b) = Finite (a + b)"

text \<open>Multiplication: zero times an infinity gives NaN.\<close>

fun fmul :: "fp \<Rightarrow> fp \<Rightarrow> fp" where
  "fmul NaN _ = NaN"
| "fmul _ NaN = NaN"
| "fmul PInf PInf = PInf"
| "fmul PInf NInf = NInf"
| "fmul NInf PInf = NInf"
| "fmul NInf NInf = PInf"
| "fmul PInf (Finite b) = (if b = 0 then NaN else if 0 < b then PInf else NInf)"
| "fmul NInf (Finite b) = (if b = 0 then NaN else if 0 < b then NInf else PInf)"
| "fmul (Finite a) PInf = (if a = 0 then NaN else if 0 < a then PInf else NInf)"
| "fmul (Finite a) NInf = (if a = 0 then NaN else if 0 < a then NInf else PInf)"
| "fmul (Finite a) (Finite b) = Finite (a * b)"

text \<open>
  Division: a non-zero finite value over zero is an infinity, zero over zero and an
  infinity over an infinity are NaN, a finite value over an infinity is zero.
\<close>

fun fdiv :: "fp \<Rightarrow> fp \<Rightarrow> fp" where
  "fdiv NaN _ = NaN"
| "fdiv _ NaN = NaN"
| "fdiv PInf PInf = NaN"
| "fdiv PInf NInf = NaN"
| "fdiv NInf PInf = NaN"
| "fdiv NInf NInf = NaN"
| "fdiv PInf (Finite b) = (if 0 \<le> b then PInf else NInf)"
| "fdiv NInf (Finite b) = (if 0 \<le> b then NInf else PInf)"
| "fdiv (Finite a) PInf = Finite 0"
| "fdiv (Finite a) NInf = Finite 0"
| "fdiv (Finite a) (Finite b) =
     (if b = 0 then (if a = 0 then NaN else if 0 < a then PInf else NInf)
      else Finite (a / b))"

text \<open>\<^verbatim>\<open>std::atan\<close>: the infinities are mapped to the two ends of the range.\<close>

fun fatan :: "fp \<Rightarrow> fp" where
  "fatan (Finite a) = Finite (arctan a)"
| "fatan PInf = Finite (pi / 2)"
| "fatan NInf = Finite (- (pi / 2))"
| "fatan NaN = NaN"

text \<open>\<^verbatim>\<open>std::cos\<close>: NaN at an infinity.\<close>

fun fcos :: "fp \<Rightarrow> fp" where
  "fcos (Finite a) = Finite (cos a)"
| "fcos _ = NaN"

text \<open>
  \<^verbatim>\<open>std::tan\<close>: NaN at an infinity. On a finite argument it is the quotient of sine
  and cosine, so that at a pole of the tangent (an argument no \<^verbatim>\<open>double\<close> equals,
  but a real number does) the result is the infinity of the sine's sign rather than
  the value \<open>0\<close> that \<open>tan\<close> has there in HOL.
\<close>

fun ftan :: "fp \<Rightarrow> fp" where
  "ftan (Finite a) = fdiv (Finite (sin a)) (Finite (cos a))"
| "ftan _ = NaN"

text \<open>The comparison \<^verbatim>\<open><\<close>: false whenever an operand is NaN.\<close>

fun fless :: "fp \<Rightarrow> fp \<Rightarrow> bool" where
  "fless (Finite a) (Finite b) = (a < b)"
| "fless NInf (Finite b) = True"
| "fless NInf PInf = True"
| "fless (Finite a) PInf = True"
| "fless _ _ = False"

subsection \<open>Rounding to binary32 and binary64\<close>

text \<open>Rounding a real number to the nearest integer, a tie to the even neighbour.\<close>

definition rne :: "real \<Rightarrow> int" where
  "rne x =
     (let f = \<lfloor>x\<rfloor> in
      if x - of_int f < 1 / 2 then f
      else if 1 / 2 < x - of_int f then f + 1
      else if even f then f else f + 1)"

text \<open>
  Rounding a finite value to a binary format of precision \<open>p\<close> with exponents from
  \<open>emin\<close> to \<open>emax\<close>, to nearest and ties to even: the spacing of the format at \<open>x\<close> is
  \<open>2 ^ (e - (p - 1))\<close> with \<open>e\<close> the exponent of \<open>x\<close>, not below \<open>emin\<close> (the subnormal
  range); a rounded magnitude of \<open>2 ^ (emax + 1)\<close> or more overflows to an infinity.
\<close>

definition fround :: "int \<Rightarrow> int \<Rightarrow> int \<Rightarrow> fp \<Rightarrow> fp" where
  "fround p emin emax v =
     (case v of
        Finite x \<Rightarrow>
          if x = 0 then Finite 0
          else
            let e = max \<lfloor>log 2 \<bar>x\<bar>\<rfloor> emin;
                q = 2 powr of_int (e - (p - 1));
                r = of_int (rne (\<bar>x\<bar> / q)) * q
            in if 2 powr of_int (emax + 1) \<le> r then (if 0 < x then PInf else NInf)
               else Finite (sgn x * r)
      | _ \<Rightarrow> v)"

text \<open>The values a binary format holds.\<close>

definition representable :: "int \<Rightarrow> int \<Rightarrow> int \<Rightarrow> fp \<Rightarrow> bool" where
  "representable p emin emax v =
     (case v of
        Finite x \<Rightarrow>
          x = 0 \<or>
          (let e = max \<lfloor>log 2 \<bar>x\<bar>\<rfloor> emin
           in e \<le> emax \<and> \<bar>x\<bar> / 2 powr of_int (e - (p - 1)) \<in> \<int>)
      | _ \<Rightarrow> True)"

text \<open>\<^verbatim>\<open>double\<close> is binary64, \<^verbatim>\<open>float\<close> is binary32.\<close>

definition is_double :: "fp \<Rightarrow> bool" where
  "is_double v = representable 53 (- 1022) 1023 v"

definition is_float :: "fp \<Rightarrow> bool" where
  "is_float v = representable 24 (- 126) 127 v"

text \<open>
  Rounding to \<^verbatim>\<open>float\<close>: the result of an operation on \<^verbatim>\<open>float\<close> operands, and the
  conversion a \<^verbatim>\<open>float\<close> member performs when initialised from a \<^verbatim>\<open>double\<close>.
\<close>

definition to_float :: "fp \<Rightarrow> fp" where
  "to_float v = fround 24 (- 126) 127 v"

text \<open>Rounding to \<^verbatim>\<open>double\<close>: the result of an operation on \<^verbatim>\<open>double\<close> operands.\<close>

definition to_double :: "fp \<Rightarrow> fp" where
  "to_double v = fround 53 (- 1022) 1023 v"

text \<open>The rounded magnitude of a positive number, before the overflow test of \<open>fround\<close>.\<close>

definition round_mag :: "int \<Rightarrow> int \<Rightarrow> real \<Rightarrow> real" where
  "round_mag p emin a =
     of_int (rne (a / 2 powr of_int (max \<lfloor>log 2 a\<rfloor> emin - (p - 1)))) *
     2 powr of_int (max \<lfloor>log 2 a\<rfloor> emin - (p - 1))"

subsection \<open>The machine operations\<close>

text \<open>
  On \<^verbatim>\<open>float\<close> operands: \<^verbatim>\<open>/\<close>, \<^verbatim>\<open>*\<close> and \<^verbatim>\<open>std::atan\<close>, whose overload for a
  \<^verbatim>\<open>float\<close> argument returns a \<^verbatim>\<open>float\<close>. The library functions are taken as
  correctly rounded.
\<close>

definition f32_div :: "fp \<Rightarrow> fp \<Rightarrow> fp" where
  "f32_div a b = to_float (fdiv a b)"

definition f32_mul :: "fp \<Rightarrow> fp \<Rightarrow> fp" where
  "f32_mul a b = to_float (fmul a b)"

definition f32_atan :: "fp \<Rightarrow> fp" where
  "f32_atan a = to_float (fatan a)"

text \<open>
  On \<^verbatim>\<open>double\<close> operands (a \<^verbatim>\<open>float\<close> operand of a mixed operation is promoted to
  \<^verbatim>\<open>double\<close> unchanged): \<^verbatim>\<open>+\<close>, \<^verbatim>\<open>*\<close>, \<^verbatim>\<open>/\<close>, \<^verbatim>\<open>std::tan\<close> and \<^verbatim>\<open>std::cos\<close>. Every
  operation rounds once, to the type of its result: a product and a sum are not fused,
  and no intermediate result is kept in a wider format.
\<close>

definition f64_add :: "fp \<Rightarrow> fp \<Rightarrow> fp" where
  "f64_add a b = to_double (fadd a b)"

definition f64_mul :: "fp \<Rightarrow> fp \<Rightarrow> fp" where
  "f64_mul a b = to_double (fmul a b)"

definition f64_div :: "fp \<Rightarrow> fp \<Rightarrow> fp" where
  "f64_div a b = to_double (fdiv a b)"

definition f64_tan :: "fp \<Rightarrow> fp" where
  "f64_tan a = to_double (ftan a)"

definition f64_cos :: "fp \<Rightarrow> fp" where
  "f64_cos a = to_double (fcos a)"

text \<open>
  The constant \<^verbatim>\<open>M_PI\<close> of \<^verbatim>\<open><cmath>\<close>: the \<^verbatim>\<open>double\<close> nearest to \<open>\<pi>\<close>, with the
  bits \<^verbatim>\<open>0x400921FB54442D18\<close>.
\<close>

definition M_PI :: fp where
  "M_PI = Finite (884279719003555 / 2 ^ 48)"

section \<open>The module BreitWignerGenerator\<close>

text \<open>
  The object: the two \<^verbatim>\<open>const float\<close> members and the contents of the two
  \<^verbatim>\<open>double\<close> slots that \<^verbatim>\<open>s\<close> and \<^verbatim>\<open>jacobian\<close> point to. The input tag
  \<^verbatim>\<open>m_ps_point\<close> is a handle into the host's pool; the value it yields is an
  argument of \<open>work\<close>.
\<close>

record BreitWignerGenerator =
  mass :: fp
  width :: fp
  s :: fp
  jacobian :: fp

text \<open>
  The constructor: \<^verbatim>\<open>mass(parameters.get<double>("mass"))\<close> and the same for
  \<^verbatim>\<open>width\<close> initialise \<^verbatim>\<open>float\<close> members from \<^verbatim>\<open>double\<close> values. The two output
  slots come from \<^verbatim>\<open>produce<double>\<close>, which is not part of this file: their first
  contents are the arguments \<open>s0\<close> and \<open>j0\<close>.
\<close>

definition BreitWignerGenerator_ctor :: "fp \<Rightarrow> fp \<Rightarrow> fp \<Rightarrow> fp \<Rightarrow> BreitWignerGenerator" where
  "BreitWignerGenerator_ctor mass_param width_param s0 j0 =
     \<lparr>mass = to_float mass_param, width = to_float width_param, s = s0, jacobian = j0\<rparr>"

text \<open>
  \<^verbatim>\<open>work()\<close>, line by line; \<open>psPoint\<close> is what \<^verbatim>\<open>m_ps_point.get<double>()\<close> returns.
  The operators associate as in C++: \<^verbatim>\<open>a * b * c\<close> is \<^verbatim>\<open>(a * b) * c\<close>. The members are
  \<^verbatim>\<open>float\<close>, so \<^verbatim>\<open>mass / width\<close>, its arctangent, \<^verbatim>\<open>mass * width\<close> and
  \<^verbatim>\<open>mass * mass\<close> are \<^verbatim>\<open>float\<close> operations; every other operation has a \<^verbatim>\<open>double\<close>
  operand and is a \<^verbatim>\<open>double\<close> operation.
\<close>

definition work :: "BreitWignerGenerator \<Rightarrow> fp \<Rightarrow> BreitWignerGenerator" where
  "work g psPoint =
     (let range = f64_add (f64_div M_PI (Finite 2)) (f32_atan (f32_div (mass g) (width g)));
          y = f64_add (fneg (f32_atan (f32_div (mass g) (width g)))) (f64_mul range psPoint)
      in g\<lparr>s := f64_add (f64_mul (f32_mul (mass g) (width g)) (f64_tan y))
                  (f32_mul (mass g) (mass g)),
           jacobian := f64_div (f64_mul (f64_mul range (mass g)) (width g))
                         (f64_mul (f64_cos y) (f64_cos y))\<rparr>)"

text \<open>\<^verbatim>\<open>dimensions()\<close>.\<close>

definition dimensions :: "BreitWignerGenerator \<Rightarrow> nat" where
  "dimensions g = 1"

section \<open>The transform as the specification words it\<close>

text \<open>Squaring, for the specification's \<open>mass\<^sup>2\<close> and \<open>cos(y)\<^sup>2\<close>.\<close>

fun fsqr :: "fp \<Rightarrow> fp" where
  "fsqr (Finite a) = Finite (a\<^sup>2)"
| "fsqr PInf = PInf"
| "fsqr NInf = PInf"
| "fsqr NaN = NaN"

text \<open>
  The four steps of the evaluation contract, in exact arithmetic:
  \<open>range = \<pi>/2 + atan(mass/width)\<close>, \<open>y = -atan(mass/width) + range * x\<close>,
  \<open>s = mass * width * tan(y) + mass\<^sup>2\<close>, \<open>jacobian = range * mass * width / cos(y)\<^sup>2\<close>.
\<close>

definition evaluate_spec :: "fp \<Rightarrow> fp \<Rightarrow> fp \<Rightarrow> fp \<times> fp" where
  "evaluate_spec m w x =
     (let range = fadd (Finite (pi / 2)) (fatan (fdiv m w));
          y = fadd (fneg (fatan (fdiv m w))) (fmul range x);
          sv = fadd (fmul (fmul m w) (ftan y)) (fsqr m);
          jv = fdiv (fmul (fmul range m) w) (fsqr (fcos y))
      in (sv, jv))"

section \<open>Reading results\<close>

text \<open>A value is finite and within \<open>tol\<close> of the number \<open>c\<close>.\<close>

fun fclose :: "fp \<Rightarrow> real \<Rightarrow> real \<Rightarrow> bool" where
  "fclose (Finite a) c tol = (\<bar>a - c\<bar> \<le> tol)"
| "fclose _ c tol = False"

section \<open>Properties\<close>

subsection \<open>Rounding to a binary format\<close>

lemma rne_of_int: "rne (of_int k) = k"
  by (simp add: rne_def)

lemma rne_Ints: "x \<in> \<int> \<Longrightarrow> of_int (rne x) = x"
  by (auto simp: Ints_def rne_of_int)

lemma rne_nonneg: "0 \<le> x \<Longrightarrow> 0 \<le> rne x"
  by (simp add: rne_def Let_def)

lemma rne_le_int:
  assumes "x \<le> of_int k"
  shows "rne x \<le> k"
proof (cases "x = of_int k")
  case True
  then show ?thesis by (simp add: rne_of_int)
next
  case False
  then have "x < of_int k" using assms by simp
  then have "\<lfloor>x\<rfloor> < k" by (simp add: floor_less_iff)
  then show ?thesis by (simp add: rne_def Let_def)
qed

lemma two_powr_Ints:
  assumes "0 \<le> k"
  shows "(2::real) powr of_int k \<in> \<int>"
proof -
  have "(2::real) powr of_int k = 2 ^ nat k"
    using assms powr_realpow [of "2::real" "nat k"] by simp
  then show ?thesis by simp
qed

lemma floor_log2_bounds:
  fixes a :: real
  assumes "0 < a"
  shows "2 powr of_int \<lfloor>log 2 a\<rfloor> \<le> a" "a < 2 powr of_int (\<lfloor>log 2 a\<rfloor> + 1)"
  using floor_log_eq_powr_iff [of a 2 "\<lfloor>log 2 a\<rfloor>"] assms by simp_all

lemma fround_Finite:
  assumes "x \<noteq> 0"
    and "e = max \<lfloor>log 2 \<bar>x\<bar>\<rfloor> emin"
    and "q = 2 powr of_int (e - (p - 1))"
    and "r = of_int (rne (\<bar>x\<bar> / q)) * q"
  shows "fround p emin emax (Finite x) =
    (if 2 powr of_int (emax + 1) \<le> r then (if 0 < x then PInf else NInf)
     else Finite (sgn x * r))"
  unfolding fround_def assms(2-4) using assms(1) by (simp add: Let_def)

lemma fround_idem:
  assumes "representable p emin emax v"
  shows "fround p emin emax v = v"
proof (cases v)
  case (Finite x)
  show ?thesis
  proof (cases "x = 0")
    case True
    then show ?thesis using Finite by (simp add: fround_def)
  next
    case False
    define e where "e = max \<lfloor>log 2 \<bar>x\<bar>\<rfloor> emin"
    define q :: real where "q = 2 powr of_int (e - (p - 1))"
    define r :: real where "r = of_int (rne (\<bar>x\<bar> / q)) * q"
    have rep: "e \<le> emax" "\<bar>x\<bar> / q \<in> \<int>"
      using assms False Finite by (simp_all add: representable_def Let_def e_def q_def)
    have q: "0 < q" by (simp add: q_def)
    have r: "r = \<bar>x\<bar>"
      unfolding r_def using rne_Ints [OF rep(2)] q by simp
    have "\<bar>x\<bar> < 2 powr of_int (\<lfloor>log 2 \<bar>x\<bar>\<rfloor> + 1)"
      using floor_log2_bounds(2) [of "\<bar>x\<bar>"] False by simp
    also have "\<dots> \<le> 2 powr of_int (emax + 1)"
      using rep(1) by (simp add: e_def)
    finally have no: "\<not> 2 powr of_int (emax + 1) \<le> r" using r by simp
    have "sgn x * r = x" using r by (simp add: sgn_real_def)
    then show ?thesis
      using no unfolding Finite fround_Finite [OF False e_def q_def r_def] by simp
  qed
qed (simp_all add: fround_def)


lemma floor_log2_le:
  fixes r :: real
  assumes "0 < r" "r < 2 powr of_int (k + 1)"
  shows "\<lfloor>log 2 r\<rfloor> \<le> k"
proof -
  have "2 powr of_int \<lfloor>log 2 r\<rfloor> < (2::real) powr of_int (k + 1)"
    using floor_log2_bounds(1) [OF assms(1)] assms(2) by linarith
  then have "(of_int \<lfloor>log 2 r\<rfloor> :: real) < of_int (k + 1)"
    by simp
  then show ?thesis by linarith
qed

lemma fround_representable:
  assumes "emin \<le> emax" "1 \<le> p"
  shows "representable p emin emax (fround p emin emax v)"
proof (cases v)
  case (Finite x)
  show ?thesis
  proof (cases "x = 0")
    case True
    then show ?thesis using Finite by (simp add: fround_def representable_def)
  next
    case False
    define e where "e = max \<lfloor>log 2 \<bar>x\<bar>\<rfloor> emin"
    define q :: real where "q = 2 powr of_int (e - (p - 1))"
    define n where "n = rne (\<bar>x\<bar> / q)"
    define r :: real where "r = of_int (rne (\<bar>x\<bar> / q)) * q"
    note fr = fround_Finite [OF False e_def q_def r_def, of emax]
    have q: "0 < q" by (simp add: q_def)
    have rn: "r = of_int n * q" by (simp add: r_def n_def)
    have n0: "0 \<le> n" unfolding n_def using q by (intro rne_nonneg) simp
    show ?thesis
    proof (cases "2 powr of_int (emax + 1) \<le> r")
      case True
      then show ?thesis unfolding Finite fr by (simp add: representable_def)
    next
      case no: False
      show ?thesis
      proof (cases "n = 0")
        case True
        then show ?thesis unfolding Finite fr using no rn by (simp add: representable_def)
      next
        case nz: False
        then have n1: "1 \<le> n" using n0 by simp
        have r0: "0 < r" unfolding rn using n1 q by simp
        have ar: "\<bar>sgn x * r\<bar> = r" using False r0 by (simp add: abs_mult)
        define e' where "e' = max \<lfloor>log 2 r\<rfloor> emin"
        have "\<bar>x\<bar> < 2 powr of_int (\<lfloor>log 2 \<bar>x\<bar>\<rfloor> + 1)"
          using floor_log2_bounds(2) [of "\<bar>x\<bar>"] False by simp
        also have "\<dots> \<le> 2 powr of_int (e + 1)"
          by (simp add: e_def)
        finally have xe: "\<bar>x\<bar> < 2 powr of_int (e + 1)" .
        have pq: "2 powr of_int (e + 1) = 2 powr of_int p * q"
          unfolding q_def by (simp add: powr_add [symmetric])
        have "\<bar>x\<bar> / q \<le> 2 powr of_int p"
          using xe q unfolding pq by (simp add: pos_divide_le_eq)
        also have "(2::real) powr of_int p = of_int (2 ^ nat p)"
          using assms(2) powr_realpow [of "2::real" "nat p"] by simp
        finally have nle: "n \<le> 2 ^ nat p"
          unfolding n_def by (rule rne_le_int)
        have le_emax: "e' \<le> emax"
          unfolding e'_def using floor_log2_le [OF r0, of emax] no assms(1) by simp
        have ints: "r / 2 powr of_int (e' - (p - 1)) \<in> \<int>"
        proof (cases "n = 2 ^ nat p")
          case True
          then have "r = 2 powr of_int p * q"
            unfolding rn using assms(2) powr_realpow [of "2::real" "nat p"] by simp
          then have re: "r = 2 powr of_int (e + 1)" using pq by simp
          have "\<lfloor>log 2 r\<rfloor> = e + 1"
            unfolding re by simp
          then have "e' = e + 1" by (simp add: e'_def e_def)
          then have "r / 2 powr of_int (e' - (p - 1)) = 2 powr of_int (p - 1)"
            unfolding re by (simp add: powr_diff [symmetric])
          then show ?thesis
            using two_powr_Ints [of "p - 1"] assms(2) by simp
        next
          case False
          then have "n < 2 ^ nat p" using nle by simp
          then have "(of_int n :: real) < of_int (2 ^ nat p)" by linarith
          also have "(of_int (2 ^ nat p) :: real) = 2 powr of_int p"
            using assms(2) powr_realpow [of "2::real" "nat p"] by simp
          finally have "r < 2 powr of_int (e + 1)"
            unfolding rn pq using q by simp
          then have "\<lfloor>log 2 r\<rfloor> \<le> e" by (rule floor_log2_le [OF r0])
          then have ee: "e' \<le> e" by (simp add: e'_def e_def)
          have "q / 2 powr of_int (e' - (p - 1)) = 2 powr of_int (e - e')"
            unfolding q_def by (simp add: powr_diff [symmetric])
          then have "r / 2 powr of_int (e' - (p - 1)) = of_int n * 2 powr of_int (e - e')"
            unfolding rn times_divide_eq_right [symmetric] by (simp only:)
          then show ?thesis
            using two_powr_Ints [of "e - e'"] ee by simp
        qed
        show ?thesis
          unfolding Finite fr using no r0 ar le_emax ints
          by (simp add: representable_def Let_def e'_def)
      qed
    qed
  qed
qed (simp_all add: fround_def representable_def)

lemma to_float_is_float: "is_float (to_float v)"
  unfolding is_float_def to_float_def by (rule fround_representable) simp_all

lemma to_float_idem: "is_float v \<Longrightarrow> to_float v = v"
  unfolding is_float_def to_float_def by (rule fround_idem)

lemma to_double_is_double: "is_double (to_double v)"
  unfolding is_double_def to_double_def by (rule fround_representable) simp_all

lemma to_double_idem: "is_double v \<Longrightarrow> to_double v = v"
  unfolding is_double_def to_double_def by (rule fround_idem)

subsection \<open>Monotonicity of rounding\<close>

lemma rne_bounds: "\<lfloor>x\<rfloor> \<le> rne x" "rne x \<le> \<lfloor>x\<rfloor> + 1"
  by (simp_all add: rne_def Let_def)

lemma rne_ge_int:
  assumes "of_int k \<le> x"
  shows "k \<le> rne x"
proof -
  have "k \<le> \<lfloor>x\<rfloor>" using assms by (simp add: le_floor_iff)
  then show ?thesis using rne_bounds(1) [of x] by linarith
qed

lemma rne_mono:
  assumes "a \<le> b"
  shows "rne a \<le> rne b"
proof (cases "\<lfloor>a\<rfloor> < \<lfloor>b\<rfloor>")
  case True
  then show ?thesis using rne_bounds(2) [of a] rne_bounds(1) [of b] by linarith
next
  case False
  then have eq: "\<lfloor>a\<rfloor> = \<lfloor>b\<rfloor>" using assms floor_mono [of a b] by linarith
  show ?thesis using assms by (auto simp: rne_def Let_def eq)
qed

lemma rne_eq:
  assumes "of_int k - 1 / 2 < z" "z < of_int k + 1 / 2"
  shows "rne z = k"
proof (cases "of_int k \<le> z")
  case True
  then have "\<lfloor>z\<rfloor> = k" using assms by (simp add: floor_eq_iff)
  then show ?thesis using assms by (simp add: rne_def Let_def)
next
  case False
  then have "\<lfloor>z\<rfloor> = k - 1" using assms by (simp add: floor_eq_iff)
  then show ?thesis using assms by (simp add: rne_def Let_def)
qed

lemma fround_round_mag:
  assumes "x \<noteq> 0"
  shows "fround p emin emax (Finite x) =
    (if 2 powr of_int (emax + 1) \<le> round_mag p emin \<bar>x\<bar> then (if 0 < x then PInf else NInf)
     else Finite (sgn x * round_mag p emin \<bar>x\<bar>))"
  using assms by (simp add: fround_def round_mag_def Let_def)

lemma fround_zero [simp]: "fround p emin emax (Finite 0) = Finite 0"
  by (simp add: fround_def)

lemma round_mag_nonneg: "0 < a \<Longrightarrow> 0 \<le> round_mag p emin a"
  unfolding round_mag_def by (intro mult_nonneg_nonneg) (simp_all add: rne_nonneg)

lemma round_mag_upper:
  assumes "0 < a" "1 \<le> p"
  shows "round_mag p emin a \<le> 2 powr of_int (max \<lfloor>log 2 a\<rfloor> emin + 1)"
proof -
  define e where "e = max \<lfloor>log 2 a\<rfloor> emin"
  define q :: real where "q = 2 powr of_int (e - (p - 1))"
  have q: "0 < q" by (simp add: q_def)
  have "a < 2 powr of_int (\<lfloor>log 2 a\<rfloor> + 1)"
    using floor_log2_bounds(2) [OF assms(1)] .
  also have "\<dots> \<le> 2 powr of_int (e + 1)" by (simp add: e_def)
  finally have xe: "a < 2 powr of_int (e + 1)" .
  have pq: "2 powr of_int (e + 1) = 2 powr of_int p * q"
    unfolding q_def by (simp add: powr_add [symmetric])
  have "a / q \<le> 2 powr of_int p"
    using xe q unfolding pq by (simp add: pos_divide_le_eq)
  also have p2: "(2::real) powr of_int p = of_int (2 ^ nat p)"
    using assms(2) powr_realpow [of "2::real" "nat p"] by simp
  finally have "rne (a / q) \<le> 2 ^ nat p" by (rule rne_le_int)
  then have "(of_int (rne (a / q)) :: real) \<le> of_int (2 ^ nat p)" by linarith
  then have "of_int (rne (a / q)) * q \<le> 2 powr of_int p * q"
    unfolding p2 using q by (intro mult_right_mono) simp_all
  then show ?thesis
    unfolding round_mag_def e_def [symmetric] q_def [symmetric] pq .
qed

lemma round_mag_lower:
  assumes "0 < a" "1 \<le> p" "emin \<le> \<lfloor>log 2 a\<rfloor>"
  shows "2 powr of_int \<lfloor>log 2 a\<rfloor> \<le> round_mag p emin a"
proof -
  define e where "e = \<lfloor>log 2 a\<rfloor>"
  define q :: real where "q = 2 powr of_int (e - (p - 1))"
  have em: "max e emin = e" using assms(3) by (simp add: e_def)
  have q: "0 < q" by (simp add: q_def)
  have pq: "2 powr of_int e = 2 powr of_int (p - 1) * q"
    unfolding q_def by (simp add: powr_add [symmetric])
  have p2: "(2::real) powr of_int (p - 1) = of_int (2 ^ nat (p - 1))"
    using assms(2) powr_realpow [of "2::real" "nat (p - 1)"] by simp
  have "2 powr of_int e \<le> a"
    unfolding e_def using floor_log2_bounds(1) [OF assms(1)] .
  then have "of_int (2 ^ nat (p - 1)) \<le> a / q"
    unfolding pq p2 using q by (simp add: pos_le_divide_eq)
  then have "2 ^ nat (p - 1) \<le> rne (a / q)" by (rule rne_ge_int)
  then have "(of_int (2 ^ nat (p - 1)) :: real) \<le> of_int (rne (a / q))" by linarith
  then have "2 powr of_int (p - 1) * q \<le> of_int (rne (a / q)) * q"
    unfolding p2 using q by (intro mult_right_mono) simp_all
  then show ?thesis
    unfolding round_mag_def e_def [symmetric] em q_def [symmetric] pq .
qed

lemma round_mag_mono:
  assumes "0 < a" "a \<le> b" "1 \<le> p"
  shows "round_mag p emin a \<le> round_mag p emin b"
proof -
  have b: "0 < b" using assms by simp
  have ll: "\<lfloor>log 2 a\<rfloor> \<le> \<lfloor>log 2 b\<rfloor>"
    using assms by (intro floor_mono) simp
  show ?thesis
  proof (cases "max \<lfloor>log 2 a\<rfloor> emin = max \<lfloor>log 2 b\<rfloor> emin")
    case True
    have "rne (a / 2 powr of_int (max \<lfloor>log 2 b\<rfloor> emin - (p - 1)))
        \<le> rne (b / 2 powr of_int (max \<lfloor>log 2 b\<rfloor> emin - (p - 1)))"
      using assms by (intro rne_mono divide_right_mono) simp_all
    then show ?thesis
      unfolding round_mag_def True by (intro mult_right_mono) simp_all
  next
    case False
    then have lt: "max \<lfloor>log 2 a\<rfloor> emin + 1 \<le> \<lfloor>log 2 b\<rfloor>" and eb: "emin \<le> \<lfloor>log 2 b\<rfloor>"
      using ll by (auto simp: max_def split: if_splits)
    have "round_mag p emin a \<le> 2 powr of_int (max \<lfloor>log 2 a\<rfloor> emin + 1)"
      by (rule round_mag_upper [OF assms(1,3)])
    also have "\<dots> \<le> 2 powr of_int \<lfloor>log 2 b\<rfloor>"
      using lt by simp
    also have "\<dots> \<le> round_mag p emin b"
      by (rule round_mag_lower [OF b assms(3) eb])
    finally show ?thesis .
  qed
qed

subsection \<open>Enclosures and values of a format\<close>

lemma representable_pos:
  assumes "representable p emin emax (Finite c)" "0 < c"
  shows "round_mag p emin c = c" "c < 2 powr of_int (emax + 1)"
proof -
  define e where "e = max \<lfloor>log 2 c\<rfloor> emin"
  define q :: real where "q = 2 powr of_int (e - (p - 1))"
  have rep: "e \<le> emax" "c / q \<in> \<int>"
    using assms by (simp_all add: representable_def Let_def e_def q_def)
  have q: "0 < q" by (simp add: q_def)
  show "round_mag p emin c = c"
    unfolding round_mag_def e_def [symmetric] q_def [symmetric]
    using rne_Ints [OF rep(2)] q by simp
  have "c < 2 powr of_int (\<lfloor>log 2 c\<rfloor> + 1)"
    using floor_log2_bounds(2) [OF assms(2)] .
  also have "\<dots> \<le> 2 powr of_int (emax + 1)"
    using rep(1) by (simp add: e_def)
  finally show "c < 2 powr of_int (emax + 1)" .
qed

lemma representable_minus:
  "representable p emin emax (Finite (- c)) = representable p emin emax (Finite c)"
  by (simp add: representable_def)

text \<open>Rounding stays between any two values of the format that enclose the argument.\<close>

lemma fround_enclosed:
  assumes "lo \<le> x" "x \<le> hi" "1 \<le> p"
    and "representable p emin emax (Finite lo)" "representable p emin emax (Finite hi)"
  shows "\<exists>r. fround p emin emax (Finite x) = Finite r \<and> lo \<le> r \<and> r \<le> hi"
proof -
  consider "x = 0" | "0 < x" | "x < 0" by linarith
  then show ?thesis
  proof cases
    case 1
    then show ?thesis using assms by simp
  next
    case 2
    then have hi: "0 < hi" using assms by simp
    have up: "round_mag p emin x \<le> hi"
      using round_mag_mono [OF 2 assms(2,3), of emin] representable_pos(1) [OF assms(5) hi]
      by simp
    have no: "\<not> 2 powr of_int (emax + 1) \<le> round_mag p emin \<bar>x\<bar>"
      using up representable_pos(2) [OF assms(5) hi] 2 by simp
    have low: "lo \<le> round_mag p emin x"
    proof (cases "0 < lo")
      case True
      then show ?thesis
        using round_mag_mono [OF True assms(1,3), of emin] representable_pos(1) [OF assms(4) True]
        by simp
    next
      case False
      then show ?thesis using round_mag_nonneg [OF 2, of p emin] by linarith
    qed
    show ?thesis
      unfolding fround_round_mag [OF less_imp_neq [OF 2, symmetric]]
      using no up low 2 by simp
  next
    case 3
    then have lo: "0 < - lo" and x: "0 < - x" using assms by simp_all
    have rl: "representable p emin emax (Finite (- lo))"
      using assms(4) by (simp add: representable_minus)
    have up: "round_mag p emin (- x) \<le> - lo"
      using round_mag_mono [OF x _ assms(3), of "- lo" emin] representable_pos(1) [OF rl lo] assms(1)
      by simp
    have no: "\<not> 2 powr of_int (emax + 1) \<le> round_mag p emin \<bar>x\<bar>"
      using up representable_pos(2) [OF rl lo] 3 by simp
    have low: "- hi \<le> round_mag p emin (- x)"
    proof (cases "0 < - hi")
      case True
      have rh: "representable p emin emax (Finite (- hi))"
        using assms(5) by (simp add: representable_minus)
      show ?thesis
        using round_mag_mono [OF True _ assms(3), of "- x" emin] representable_pos(1) [OF rh True]
          assms(2)
        by simp
    next
      case False
      then show ?thesis using round_mag_nonneg [OF x, of p emin] by linarith
    qed
    have nz: "x \<noteq> 0" using 3 by simp
    show ?thesis
      unfolding fround_round_mag [OF nz]
      using no up low 3 by simp
  qed
qed

text \<open>A number \<open>k * 2 ^ z\<close> with \<open>k\<close> of at most \<open>p\<close> bits is a value of the format.\<close>

lemma representable_dyadic:
  assumes "\<bar>k\<bar> < 2 ^ nat p" "1 \<le> p" "emin - (p - 1) \<le> z" "z + p \<le> emax + 1"
  shows "representable p emin emax (Finite (of_int k * 2 powr of_int z))"
proof (cases "k = 0")
  case True
  then show ?thesis by (simp add: representable_def)
next
  case False
  define x :: real where "x = of_int k * 2 powr of_int z"
  define e where "e = max \<lfloor>log 2 \<bar>x\<bar>\<rfloor> emin"
  have ax: "\<bar>x\<bar> = of_int \<bar>k\<bar> * 2 powr of_int z"
    by (simp add: x_def abs_mult)
  have x0: "0 < \<bar>x\<bar>" using False by (simp add: x_def)
  have p2: "(2::real) powr of_int p = of_int (2 ^ nat p)"
    using assms(2) powr_realpow [of "2::real" "nat p"] by simp
  have "(of_int \<bar>k\<bar> :: real) < of_int (2 ^ nat p)"
    using assms(1) by linarith
  then have "\<bar>x\<bar> < 2 powr of_int p * 2 powr of_int z"
    unfolding ax p2 by (intro mult_strict_right_mono) simp_all
  then have lt: "\<bar>x\<bar> < 2 powr of_int (z + p - 1 + 1)"
    by (simp add: powr_add [symmetric] add.commute)
  have l: "\<lfloor>log 2 \<bar>x\<bar>\<rfloor> \<le> z + p - 1"
    by (rule floor_log2_le [OF x0 lt])
  then have ez: "e \<le> z + p - 1" using assms(3) by (simp add: e_def)
  have e1: "e \<le> emax" using ez assms(4) by linarith
  have "\<bar>x\<bar> / 2 powr of_int (e - (p - 1)) = of_int \<bar>k\<bar> * (2 powr of_int z / 2 powr of_int (e - (p - 1)))"
    unfolding ax by simp
  also have "2 powr of_int z / 2 powr of_int (e - (p - 1)) = (2::real) powr of_int (z - (e - (p - 1)))"
    by (simp add: powr_diff [symmetric])
  finally have "\<bar>x\<bar> / 2 powr of_int (e - (p - 1)) \<in> \<int>"
    using two_powr_Ints [of "z - (e - (p - 1))"] ez by simp
  then show ?thesis
    using e1 False unfolding x_def [symmetric] representable_def
    by (simp add: Let_def e_def)
qed

lemma fround_minus:
  "fround p emin emax (Finite (- x)) = fneg (fround p emin emax (Finite x))"
proof (cases "x = 0")
  case True
  then show ?thesis by simp
next
  case False
  then have "- x \<noteq> 0" by simp
  then show ?thesis
    unfolding fround_round_mag [OF False] fround_round_mag [OF \<open>- x \<noteq> 0\<close>]
    using False by (auto simp: sgn_real_def)
qed

lemma fround_eval:
  fixes x :: real
  assumes "2 powr of_int e \<le> x" "x < 2 powr of_int (e + 1)" "emin \<le> e"
    and "of_int k - 1 / 2 < x / 2 powr of_int (e - (p - 1))"
    and "x / 2 powr of_int (e - (p - 1)) < of_int k + 1 / 2"
    and "(of_int k :: real) * 2 powr of_int (e - (p - 1)) < 2 powr of_int (emax + 1)"
  shows "fround p emin emax (Finite x) = Finite (of_int k * 2 powr of_int (e - (p - 1)))"
proof -
  have x: "0 < x" using assms(1) powr_gt_zero [of 2 "of_int e"] by linarith
  have l: "\<lfloor>log 2 x\<rfloor> = e"
    using floor_log_eq_powr_iff [of x 2 e] x assms(1,2) by simp
  have m: "max \<lfloor>log 2 x\<rfloor> emin = e" using l assms(3) by simp
  have r: "round_mag p emin x = of_int k * 2 powr of_int (e - (p - 1))"
    unfolding round_mag_def m rne_eq [OF assms(4,5)] ..
  have nz: "x \<noteq> 0" using x by simp
  show ?thesis
    unfolding fround_round_mag [OF nz] using x r assms(6) by simp
qed

lemma to_double_enclosed:
  assumes "lo \<le> x" "x \<le> hi" "is_double (Finite lo)" "is_double (Finite hi)"
  shows "\<exists>r. to_double (Finite x) = Finite r \<and> lo \<le> r \<and> r \<le> hi"
  using assms unfolding to_double_def is_double_def
  by (intro fround_enclosed) simp_all

lemma to_float_enclosed:
  assumes "lo \<le> x" "x \<le> hi" "is_float (Finite lo)" "is_float (Finite hi)"
  shows "\<exists>r. to_float (Finite x) = Finite r \<and> lo \<le> r \<and> r \<le> hi"
  using assms unfolding to_float_def is_float_def
  by (intro fround_enclosed) simp_all

lemma is_double_dyadic:
  assumes "\<bar>k\<bar> < 2 ^ 53" "n \<le> 1074"
  shows "is_double (Finite (of_int k / 2 ^ n))"
proof -
  have "representable 53 (- 1022) 1023 (Finite (of_int k * 2 powr of_int (- int n)))"
    using assms by (intro representable_dyadic) simp_all
  moreover have "(2::real) powr of_int (- int n) = 1 / 2 ^ n"
    using powr_realpow [of "2::real" n] by (simp add: powr_minus divide_inverse)
  ultimately show ?thesis by (simp add: is_double_def)
qed

lemma is_double_scaled:
  assumes "\<bar>k\<bar> < 2 ^ 53" "n \<le> 971"
  shows "is_double (Finite (of_int k * 2 ^ n))"
proof -
  have "representable 53 (- 1022) 1023 (Finite (of_int k * 2 powr of_int (int n)))"
    using assms by (intro representable_dyadic) simp_all
  moreover have "(2::real) powr of_int (int n) = 2 ^ n"
    using powr_realpow [of "2::real" n] by simp
  ultimately show ?thesis by (simp add: is_double_def)
qed

lemma is_float_dyadic:
  assumes "\<bar>k\<bar> < 2 ^ 24" "n \<le> 149"
  shows "is_float (Finite (of_int k / 2 ^ n))"
proof -
  have "representable 24 (- 126) 127 (Finite (of_int k * 2 powr of_int (- int n)))"
    using assms by (intro representable_dyadic) simp_all
  moreover have "(2::real) powr of_int (- int n) = 1 / 2 ^ n"
    using powr_realpow [of "2::real" n] by (simp add: powr_minus divide_inverse)
  ultimately show ?thesis by (simp add: is_float_def)
qed

lemma is_float_scaled:
  assumes "\<bar>k\<bar> < 2 ^ 24" "n \<le> 104"
  shows "is_float (Finite (of_int k * 2 ^ n))"
proof -
  have "representable 24 (- 126) 127 (Finite (of_int k * 2 powr of_int (int n)))"
    using assms by (intro representable_dyadic) simp_all
  moreover have "(2::real) powr of_int (int n) = 2 ^ n"
    using powr_realpow [of "2::real" n] by simp
  ultimately show ?thesis by (simp add: is_float_def)
qed

subsection \<open>Numbers\<close>

lemma arctan_bracket:
  fixes x :: real
  assumes "0 < x" "x \<le> 1"
  shows "(\<Sum>i<2 * n. (- 1) ^ i * (1 / real (i * 2 + 1) * x ^ (i * 2 + 1))) \<le> arctan x"
    and "arctan x \<le> (\<Sum>i<2 * n + 1. (- 1) ^ i * (1 / real (i * 2 + 1) * x ^ (i * 2 + 1)))"
proof -
  have ax: "\<bar>x\<bar> \<le> 1" using assms by simp
  have pos: "0 < 1 / real (0 * 2 + 1) * x ^ (0 * 2 + 1)" using assms by simp
  have "arctan x \<in> {(\<Sum>i<2 * n. (- 1) ^ i * (1 / real (i * 2 + 1) * x ^ (i * 2 + 1))) ..
                    (\<Sum>i<2 * n + 1. (- 1) ^ i * (1 / real (i * 2 + 1) * x ^ (i * 2 + 1)))}"
    using summable_Leibniz(2) [OF zeroseq_arctan_series [OF ax] monoseq_arctan_series [OF ax]] pos
    unfolding arctan_series [OF ax] by blast
  then show "(\<Sum>i<2 * n. (- 1) ^ i * (1 / real (i * 2 + 1) * x ^ (i * 2 + 1))) \<le> arctan x"
    and "arctan x \<le> (\<Sum>i<2 * n + 1. (- 1) ^ i * (1 / real (i * 2 + 1) * x ^ (i * 2 + 1)))"
    by simp_all
qed

lemma arctan_le_self:
  fixes x :: real
  assumes "0 < x" "x \<le> 1"
  shows "arctan x \<le> x"
  using arctan_bracket(2) [OF assms, of 0] by simp

text \<open>Machin's formula with six and seven terms of the series at \<open>1/5\<close>.\<close>

lemma pi_bounds: "3.14159265 < pi" "pi < 3.14159266"
proof -
  let ?t = "\<lambda>x i. (- 1) ^ i * (1 / real (i * 2 + 1) * (x::real) ^ (i * 2 + 1))"
  have l5: "(\<Sum>i<6. ?t (1 / 5) i) \<le> arctan (1 / 5)"
    using arctan_bracket(1) [of "1 / 5" 3] by simp
  have u5: "arctan (1 / 5) \<le> (\<Sum>i<7. ?t (1 / 5) i)"
    using arctan_bracket(2) [of "1 / 5" 3] by simp
  have l239: "(\<Sum>i<2. ?t (1 / 239) i) \<le> arctan (1 / 239)"
    using arctan_bracket(1) [of "1 / 239" 1] by simp
  have u239: "arctan (1 / 239) \<le> (\<Sum>i<3. ?t (1 / 239) i)"
    using arctan_bracket(2) [of "1 / 239" 1] by simp
  have "4 * (4 * (\<Sum>i<6. ?t (1 / 5) i) - (\<Sum>i<3. ?t (1 / 239) i)) \<le> pi"
    using machin l5 u239 by argo
  moreover have "3.14159265 < 4 * (4 * (\<Sum>i<6. ?t (1 / 5) i) - (\<Sum>i<3. ?t (1 / 239) i))"
    by (simp add: lessThan_nat_numeral numeral_eq_Suc)
  ultimately show "3.14159265 < pi" by linarith
  have "pi \<le> 4 * (4 * (\<Sum>i<7. ?t (1 / 5) i) - (\<Sum>i<2. ?t (1 / 239) i))"
    using machin u5 l239 by argo
  moreover have "4 * (4 * (\<Sum>i<7. ?t (1 / 5) i) - (\<Sum>i<2. ?t (1 / 239) i)) < 3.14159266"
    by (simp add: lessThan_nat_numeral numeral_eq_Suc)
  ultimately show "pi < 3.14159266" by linarith
qed

lemma sqrt2_bounds: "1.41421356 < sqrt 2" "sqrt 2 < 1.41421357"
  by (rule real_less_rsqrt, simp add: power2_eq_square)
    (rule real_less_lsqrt, simp_all add: power2_eq_square)

subsection \<open>The float arctangent\<close>

lemma to_float_near_half_pi:
  assumes "0 \<le> u" "u \<le> 1 / 2 ^ 27"
  shows "to_float (Finite (pi / 2 - u)) = Finite (13176795 / 2 ^ 23)"
proof -
  have "fround 24 (- 126) 127 (Finite (pi / 2 - u)) =
      Finite (of_int 13176795 * 2 powr of_int (0 - (24 - 1)))"
    using assms pi_bounds by (intro fround_eval) (simp_all add: powr_minus field_simps)
  then show ?thesis by (simp add: to_float_def powr_minus field_simps)
qed

lemma to_float_quarter_pi: "to_float (Finite (pi / 4)) = Finite (13176795 / 2 ^ 24)"
proof -
  have "fround 24 (- 126) 127 (Finite (pi / 4)) =
      Finite (of_int 13176795 * 2 powr of_int (- 1 - (24 - 1)))"
    using pi_bounds by (intro fround_eval) (simp_all add: powr_minus field_simps)
  then show ?thesis by (simp add: to_float_def powr_minus field_simps)
qed

lemma arctan_large:
  fixes x :: real
  assumes "1 \<le> x"
  shows "arctan x = pi / 2 - arctan (1 / x)" "0 \<le> arctan (1 / x)" "arctan (1 / x) \<le> 1 / x"
proof -
  have x: "0 < x" using assms by simp
  show "arctan x = pi / 2 - arctan (1 / x)"
    using arctan_inverse [of x] x by simp
  show "0 \<le> arctan (1 / x)" using x by simp
  show "arctan (1 / x) \<le> 1 / x"
    using assms x by (intro arctan_le_self) simp_all
qed

lemma f32_atan_large:
  assumes "2 ^ 27 \<le> x"
  shows "f32_atan (Finite x) = Finite (13176795 / 2 ^ 23)"
proof -
  have x: "1 \<le> x" "0 < x" using assms by simp_all
  have "1 / x \<le> 1 / 2 ^ 27"
    using assms x by (simp add: field_simps)
  then have "arctan (1 / x) \<le> 1 / 2 ^ 27"
    using arctan_large(3) [OF x(1)] by linarith
  then show ?thesis
    unfolding f32_atan_def fatan.simps arctan_large(1) [OF x(1)]
    by (intro to_float_near_half_pi arctan_large(2) [OF x(1)])
qed

lemma f32_atan_PInf: "f32_atan PInf = Finite (13176795 / 2 ^ 23)"
  using to_float_near_half_pi [of 0] by (simp add: f32_atan_def)

lemma f32_atan_one: "f32_atan (Finite 1) = Finite (13176795 / 2 ^ 24)"
  by (simp add: f32_atan_def arctan_one to_float_quarter_pi)

subsection \<open>The machine operations on finite values\<close>

lemma f64_add_Finite: "f64_add (Finite a) (Finite b) = to_double (Finite (a + b))"
  by (simp add: f64_add_def)

lemma f64_mul_Finite: "f64_mul (Finite a) (Finite b) = to_double (Finite (a * b))"
  by (simp add: f64_mul_def)

lemma f64_div_Finite: "b \<noteq> 0 \<Longrightarrow> f64_div (Finite a) (Finite b) = to_double (Finite (a / b))"
  by (simp add: f64_div_def)

lemma f64_tan_Finite: "cos a \<noteq> 0 \<Longrightarrow> f64_tan (Finite a) = to_double (Finite (tan a))"
  by (simp add: f64_tan_def tan_def)

lemma f64_cos_Finite: "f64_cos (Finite a) = to_double (Finite (cos a))"
  by (simp add: f64_cos_def)

lemma f32_mul_Finite: "f32_mul (Finite a) (Finite b) = to_float (Finite (a * b))"
  by (simp add: f32_mul_def)

lemma f32_div_Finite: "b \<noteq> 0 \<Longrightarrow> f32_div (Finite a) (Finite b) = to_float (Finite (a / b))"
  by (simp add: f32_div_def)

lemma to_double_dyadic:
  assumes "\<bar>k\<bar> < 2 ^ 53" "n \<le> 1074"
  shows "to_double (Finite (of_int k / 2 ^ n)) = Finite (of_int k / 2 ^ n)"
  by (rule to_double_idem [OF is_double_dyadic [OF assms]])

lemma to_double_scaled:
  assumes "\<bar>k\<bar> < 2 ^ 53" "n \<le> 971"
  shows "to_double (Finite (of_int k * 2 ^ n)) = Finite (of_int k * 2 ^ n)"
  by (rule to_double_idem [OF is_double_scaled [OF assms]])

lemma to_float_dyadic:
  assumes "\<bar>k\<bar> < 2 ^ 24" "n \<le> 149"
  shows "to_float (Finite (of_int k / 2 ^ n)) = Finite (of_int k / 2 ^ n)"
  by (rule to_float_idem [OF is_float_dyadic [OF assms]])

lemma to_float_scaled:
  assumes "\<bar>k\<bar> < 2 ^ 24" "n \<le> 104"
  shows "to_float (Finite (of_int k * 2 ^ n)) = Finite (of_int k * 2 ^ n)"
  by (rule to_float_idem [OF is_float_scaled [OF assms]])

text \<open>Enclosure between dyadic numbers.\<close>

lemma to_double_between:
  assumes "of_int kl / 2 ^ nl \<le> x" "x \<le> of_int kh / 2 ^ nh"
    and "\<bar>kl\<bar> < 2 ^ 53" "nl \<le> 1074" "\<bar>kh\<bar> < 2 ^ 53" "nh \<le> 1074"
  shows "\<exists>r. to_double (Finite x) = Finite r \<and> of_int kl / 2 ^ nl \<le> r \<and> r \<le> of_int kh / 2 ^ nh"
  by (rule to_double_enclosed [OF assms(1,2) is_double_dyadic [OF assms(3,4)]
        is_double_dyadic [OF assms(5,6)]])

lemma half_M_PI: "f64_div M_PI (Finite 2) = Finite (884279719003555 / 2 ^ 49)"
  using to_double_dyadic [of 884279719003555 49] by (simp add: f64_div_def M_PI_def)

lemma tan_lipschitz:
  fixes a b :: real
  assumes "0 \<le> a" "a \<le> b" "b \<le> pi / 4"
  shows "tan b - tan a \<le> 2 * (b - a)"
proof -
  have "2 * a - tan a \<le> 2 * b - tan b"
  proof (rule DERIV_nonneg_imp_nondecreasing [OF assms(2)])
    fix t :: real
    assume t: "a \<le> t" "t \<le> b"
    have "cos (pi / 4) \<le> cos t"
      using t assms by (intro cos_monotone_0_pi_le) simp_all
    then have c: "sqrt 2 / 2 \<le> cos t" by (simp add: cos_45)
    have c0: "0 < cos t" using c real_sqrt_gt_zero [of 2] by linarith
    have "(sqrt 2 / 2)\<^sup>2 \<le> (cos t)\<^sup>2"
      using c by (intro power_mono) simp_all
    then have "1 / 2 \<le> (cos t)\<^sup>2" by (simp add: power_divide)
    then have "inverse ((cos t)\<^sup>2) \<le> 2"
      using c0 by (simp add: field_simps)
    moreover have "((\<lambda>t. 2 * t - tan t) has_real_derivative 2 - inverse ((cos t)\<^sup>2)) (at t)"
      using c0 by (auto intro!: derivative_eq_intros)
    ultimately show "\<exists>y. ((\<lambda>t. 2 * t - tan t) has_real_derivative y) (at t) \<and> 0 \<le> y"
      by (intro exI [of _ "2 - inverse ((cos t)\<^sup>2)"]) simp
  qed
  then show ?thesis by simp
qed

lemma cos_lipschitz:
  fixes a b :: real
  assumes "a \<le> b"
  shows "cos a - cos b \<le> b - a"
proof -
  have "cos a - cos b = 2 * sin ((a + b) / 2) * sin ((b - a) / 2)"
    by (rule cos_diff_cos)
  also have "\<dots> \<le> 2 * (\<bar>sin ((a + b) / 2)\<bar> * \<bar>sin ((b - a) / 2)\<bar>)"
    using abs_ge_self [of "sin ((a + b) / 2) * sin ((b - a) / 2)"] by (simp add: abs_mult)
  also have "\<dots> \<le> 2 * (1 * \<bar>(b - a) / 2\<bar>)"
    by (intro mult_left_mono mult_mono abs_sin_x_le_abs_x) simp_all
  also have "\<dots> = b - a" using assms by simp
  finally show ?thesis .
qed

subsection \<open>The unit instance at its midpoint\<close>

lemma to_float_one: "to_float (Finite 1) = Finite 1"
  using to_float_dyadic [of 1 0] by simp

lemma unit_instance:
  "mass (BreitWignerGenerator_ctor (Finite 1) (Finite 1) s0 j0) = Finite 1"
  "width (BreitWignerGenerator_ctor (Finite 1) (Finite 1) s0 j0) = Finite 1"
  by (simp_all add: BreitWignerGenerator_ctor_def to_float_one)

lemma tan_pi8: "tan (pi / 8) = sqrt 2 - 1"
proof -
  have "tan (pi / 8) = sin (pi / 4) / (cos (pi / 4) + 1)"
    using tan_half [of "pi / 8"] by simp
  also have "\<dots> = sqrt 2 / (sqrt 2 + 2)"
    by (simp add: sin_45 cos_45 field_simps)
  also have "\<dots> = sqrt 2 - 1"
  proof -
    have "(sqrt 2 - 1) * (sqrt 2 + 2) = sqrt 2"
      by (simp add: algebra_simps)
    moreover have "sqrt 2 + 2 \<noteq> 0"
      using real_sqrt_ge_zero [of 2] by linarith
    ultimately show ?thesis
      by (simp add: divide_eq_eq)
  qed
  finally show ?thesis .
qed

lemma cos_pi8_sq: "(cos (pi / 8))\<^sup>2 = (2 + sqrt 2) / 4"
proof -
  have "cos (pi / 4) = 2 * (cos (pi / 8))\<^sup>2 - 1"
    using cos_double_cos [of "pi / 8"] by simp
  then show ?thesis by (simp add: cos_45 field_simps)
qed

lemma cos_pi8_bounds: "0.9238795 \<le> cos (pi / 8)" "cos (pi / 8) \<le> 0.9238796"
proof -
  have c: "0 \<le> cos (pi / 8)" by (intro cos_ge_zero) simp_all
  have "(0.9238795 :: real)\<^sup>2 \<le> (cos (pi / 8))\<^sup>2"
    unfolding cos_pi8_sq using sqrt2_bounds(1) by (simp add: power2_eq_square)
  then show "0.9238795 \<le> cos (pi / 8)"
    using c by (rule power2_le_imp_le)
  have "(cos (pi / 8))\<^sup>2 \<le> (0.9238796 :: real)\<^sup>2"
    unfolding cos_pi8_sq using sqrt2_bounds(2) by (simp add: power2_eq_square)
  then show "cos (pi / 8) \<le> 0.9238796"
    by (rule power2_le_imp_le) simp
qed

text \<open>The angle at the midpoint of the unit instance, and its tangent and cosine.\<close>

lemma midpoint_angle:
  "pi / 8 - 2 / 10 ^ 8 \<le> 442139847198115 / 2 ^ 50" "442139847198115 / 2 ^ 50 \<le> pi / 8"
  using pi_bounds by simp_all

lemma midpoint_tan:
  "0.41421352 \<le> tan (442139847198115 / 2 ^ 50 :: real)"
  "tan (442139847198115 / 2 ^ 50 :: real) \<le> 0.41421357"
proof -
  let ?y = "442139847198115 / 2 ^ 50 :: real"
  have y0: "0 \<le> ?y" by simp
  have "tan (pi / 8) - tan ?y \<le> 2 * (pi / 8 - ?y)"
    using midpoint_angle(2) by (intro tan_lipschitz [OF y0]) simp_all
  then show "0.41421352 \<le> tan ?y"
    using midpoint_angle(1) sqrt2_bounds(1) unfolding tan_pi8 by simp
  have "tan ?y \<le> tan (pi / 8)"
    using midpoint_angle(2) by (intro tan_mono_le) simp_all
  then show "tan ?y \<le> 0.41421357"
    using sqrt2_bounds(2) unfolding tan_pi8 by simp
qed

lemma midpoint_cos:
  "0.9238795 \<le> cos (442139847198115 / 2 ^ 50 :: real)"
  "cos (442139847198115 / 2 ^ 50 :: real) \<le> 0.92387962"
proof -
  let ?y = "442139847198115 / 2 ^ 50 :: real"
  have "cos (pi / 8) \<le> cos ?y"
    using midpoint_angle(2) by (intro cos_monotone_0_pi_le) simp_all
  then show "0.9238795 \<le> cos ?y" using cos_pi8_bounds(1) by linarith
  have "cos ?y - cos (pi / 8) \<le> pi / 8 - ?y"
    by (rule cos_lipschitz [OF midpoint_angle(2)])
  then show "cos ?y \<le> 0.92387962"
    using cos_pi8_bounds(2) midpoint_angle(1) by simp
qed

lemma midpoint_enclosed:
  "\<exists>sv jv.
     s (work (BreitWignerGenerator_ctor (Finite 1) (Finite 1) s0 j0) (Finite (1 / 2))) = Finite sv \<and>
     jacobian (work (BreitWignerGenerator_ctor (Finite 1) (Finite 1) s0 j0) (Finite (1 / 2))) = Finite jv \<and>
     1518500204 / 2 ^ 30 \<le> sv \<and> sv \<le> 1518500259 / 2 ^ 30 \<and>
     2964013893 / 2 ^ 30 \<le> jv \<and> jv \<le> 2964014673 / 2 ^ 30"
proof -
  let ?y = "442139847198115 / 2 ^ 50 :: real"
  let ?r = "1326419590808995 / 2 ^ 49 :: real"
  have q: "f32_div (Finite 1) (Finite 1) = Finite 1"
    by (simp add: f32_div_def to_float_one)
  have range: "f64_add (f64_div M_PI (Finite 2)) (Finite (13176795 / 2 ^ 24)) = Finite ?r"
    unfolding half_M_PI f64_add_Finite using to_double_dyadic [of 1326419590808995 49] by simp
  have rx: "f64_mul (Finite ?r) (Finite (1 / 2)) = Finite (1326419590808995 / 2 ^ 50)"
    unfolding f64_mul_Finite using to_double_dyadic [of 1326419590808995 50] by simp
  have y: "f64_add (fneg (Finite (13176795 / 2 ^ 24))) (Finite (1326419590808995 / 2 ^ 50)) = Finite ?y"
    unfolding fneg.simps f64_add_Finite using to_double_dyadic [of 442139847198115 50] by simp
  have cy: "cos ?y \<noteq> 0" using midpoint_cos(1) by simp
  obtain t where t: "f64_tan (Finite ?y) = Finite t"
      "444758380 / 2 ^ 30 \<le> t" "t \<le> 444758435 / 2 ^ 30"
    unfolding f64_tan_Finite [OF cy]
    using to_double_between [of 444758380 30 "tan ?y" 444758435 30] midpoint_tan by auto
  have p: "f32_mul (Finite 1) (Finite 1) = Finite 1"
    by (simp add: f32_mul_def to_float_one)
  obtain u where u: "f64_mul (Finite 1) (Finite t) = Finite u"
      "444758380 / 2 ^ 30 \<le> u" "u \<le> 444758435 / 2 ^ 30"
    unfolding f64_mul_Finite
    using to_double_between [of 444758380 30 "1 * t" 444758435 30] t(2,3) by auto
  obtain sv where sv: "f64_add (Finite u) (Finite 1) = Finite sv"
      "1518500204 / 2 ^ 30 \<le> sv" "sv \<le> 1518500259 / 2 ^ 30"
    unfolding f64_add_Finite
    using to_double_between [of 1518500204 30 "u + 1" 1518500259 30] u(2,3) by auto
  have r1: "f64_mul (Finite ?r) (Finite 1) = Finite ?r"
    unfolding f64_mul_Finite using to_double_dyadic [of 1326419590808995 49] by simp
  obtain c where c: "f64_cos (Finite ?y) = Finite c"
      "992008059 / 2 ^ 30 \<le> c" "c \<le> 992008189 / 2 ^ 30"
    unfolding f64_cos_Finite
    using to_double_between [of 992008059 30 "cos ?y" 992008189 30] midpoint_cos by auto
  have c0: "0 < c" using c(2) by simp
  have "(992008059 / 2 ^ 30) * (992008059 / 2 ^ 30) \<le> c * c"
    using c(2) by (intro mult_mono) simp_all
  moreover have "c * c \<le> (992008189 / 2 ^ 30) * (992008189 / 2 ^ 30)"
    using c(3) c0 by (intro mult_mono) simp_all
  ultimately obtain d where d: "f64_mul (Finite c) (Finite c) = Finite d"
      "916495909 / 2 ^ 30 \<le> d" "d \<le> 916496150 / 2 ^ 30"
    unfolding f64_mul_Finite
    using to_double_between [of 916495909 30 "c * c" 916496150 30] by auto
  have d0: "0 < d" "d \<noteq> 0" using d(2) by simp_all
  have "?r / (916496150 / 2 ^ 30) \<le> ?r / d"
    using d(3) d0 by (intro divide_left_mono) simp_all
  moreover have "?r / d \<le> ?r / (916495909 / 2 ^ 30)"
    using d(2) d0 by (intro divide_left_mono) simp_all
  ultimately obtain jv where jv: "f64_div (Finite ?r) (Finite d) = Finite jv"
      "2964013893 / 2 ^ 30 \<le> jv" "jv \<le> 2964014673 / 2 ^ 30"
    unfolding f64_div_Finite [OF d0(2)]
    using to_double_between [of 2964013893 30 "?r / d" 2964014673 30] by auto
  show ?thesis
    unfolding work_def Let_def unit_instance q f32_atan_one range rx y t(1) p u(1) r1 c(1) d(1)
    using sv jv by simp
qed

subsection \<open>A narrow width: the angle starts beyond the pole\<close>

text \<open>Just below a pole the tangent is at most the inverse of the distance to the pole.\<close>

lemma tan_near_pole:
  fixes d :: real
  assumes "0 < d" "d \<le> pi / 4"
  shows "0 < tan (pi / 2 - d)" "tan (pi / 2 - d) \<le> 1 / d"
proof -
  have t0: "0 < tan d" using assms by (intro tan_gt_zero) simp_all
  have "tan d \<le> tan (pi / 4)" using assms by (intro tan_mono_le) simp_all
  then have t1: "tan d \<le> 1" by (simp add: tan_45)
  have "arctan (tan d) = d" using assms by (intro arctan_tan) simp_all
  then have dt: "d \<le> tan d" using arctan_le_self [OF t0 t1] by simp
  show "0 < tan (pi / 2 - d)" using t0 by (simp add: tan_cot)
  have "inverse (tan d) \<le> inverse d" using dt assms(1) by (intro le_imp_inverse_le) simp_all
  then show "tan (pi / 2 - d) \<le> 1 / d" by (simp add: tan_cot inverse_eq_divide)
qed

text \<open>Just below a pole the tangent is at least the inverse of the distance, less one.\<close>

lemma tan_near_pole_lower:
  fixes d :: real
  assumes "0 < d" "d \<le> pi / 4"
  shows "1 / d - 1 \<le> tan (pi / 2 - d)"
proof -
  have dpi: "d < pi" using assms pi_gt_zero by linarith
  have s0: "0 < sin d" using assms dpi by (intro sin_gt_zero) simp_all
  have s1: "sin d \<le> d" using assms by (intro sin_x_le_x) simp
  have "cos 0 - cos d \<le> d - 0" using assms by (intro cos_lipschitz) simp
  then have c1: "1 - d \<le> cos d" by simp
  have "pi / 4 \<le> 1" using pi_bounds(2) by simp
  then have d1: "d \<le> 1" using assms(2) by linarith
  have "(1 - d) / d \<le> (1 - d) / sin d"
    using s0 s1 d1 by (intro divide_left_mono) simp_all
  also have "\<dots> \<le> cos d / sin d"
    using s0 c1 by (intro divide_right_mono) simp_all
  finally have "(1 - d) / d \<le> cos d / sin d" .
  moreover have "(1 - d) / d = 1 / d - 1" using assms(1) by (simp add: field_simps)
  moreover have "tan (pi / 2 - d) = cos d / sin d"
    by (simp add: tan_def cos_diff sin_diff)
  ultimately show ?thesis by simp
qed

text \<open>The float nearest to \<open>\<pi>/2\<close> lies above it.\<close>

lemma float_half_pi:
  "pi / 2 + 1 / 2 ^ 25 \<le> 13176795 / 2 ^ 23" "13176795 / 2 ^ 23 \<le> pi / 2 + 1 / 2 ^ 24"
  using pi_bounds by simp_all

lemma tan_float_half_pi:
  "2 ^ 24 - 1 \<le> tan (- (13176795 / 2 ^ 23 :: real))"
  "tan (- (13176795 / 2 ^ 23 :: real)) \<le> 2 ^ 25"
  "cos (- (13176795 / 2 ^ 23 :: real)) \<noteq> 0"
proof -
  let ?a = "13176795 / 2 ^ 23 :: real"
  define d where "d = ?a - pi / 2"
  have d: "1 / 2 ^ 25 \<le> d" "d \<le> 1 / 2 ^ 24" using float_half_pi by (simp_all add: d_def)
  have d0: "0 < d" using d(1) by (rule less_le_trans [rotated]) simp
  have d4: "d \<le> pi / 4" using d(2) pi_bounds(1) by simp
  have "tan (- ?a + pi) = tan (- ?a)" by (rule tan_periodic_pi)
  moreover have "- ?a + pi = pi / 2 - d" by (simp add: d_def)
  ultimately have eq: "tan (- ?a) = tan (pi / 2 - d)" by simp
  have "2 ^ 24 \<le> 1 / d" using d(2) d0 by (simp add: field_simps)
  then show "2 ^ 24 - 1 \<le> tan (- ?a)"
    unfolding eq using tan_near_pole_lower [OF d0 d4] by linarith
  have "1 / d \<le> 2 ^ 25" using d(1) d0 by (simp add: field_simps)
  then show "tan (- ?a) \<le> 2 ^ 25"
    unfolding eq using tan_near_pole(2) [OF d0 d4] by linarith
  have "cos ?a < cos (pi / 2)"
    using float_half_pi pi_bounds by (intro cos_monotone_0_pi) simp_all
  then show "cos (- ?a) \<noteq> 0" by simp
qed

text \<open>The instance with mass \<open>2\<^sup>1\<^sup>4\<close> and width \<open>2\<^sup>-\<^sup>1\<^sup>3\<close>: both are floats.\<close>

lemma narrow_instance:
  "mass (BreitWignerGenerator_ctor (Finite 16384) (Finite (1 / 8192)) s0 j0) = Finite 16384"
  "width (BreitWignerGenerator_ctor (Finite 16384) (Finite (1 / 8192)) s0 j0) = Finite (1 / 8192)"
  using to_float_dyadic [of 16384 0] to_float_dyadic [of 1 13]
  by (simp_all add: BreitWignerGenerator_ctor_def)

lemma narrow_float_ops:
  "f32_div (Finite 16384) (Finite (1 / 8192)) = Finite 134217728"
  "f32_mul (Finite 16384) (Finite (1 / 8192)) = Finite 2"
  "f32_mul (Finite 16384) (Finite 16384) = Finite 268435456"
  using to_float_scaled [of 1 27] to_float_dyadic [of 2 0] to_float_scaled [of 1 28]
  by (simp_all add: f32_div_def f32_mul_def)

lemma narrow_range:
  "f64_add (f64_div M_PI (Finite 2)) (Finite (13176795 / 2 ^ 23)) =
     Finite (1768559462614435 / 2 ^ 49)"
  unfolding half_M_PI f64_add_Finite using to_double_dyadic [of 1768559462614435 49] by simp

lemma narrow_s_at_zero:
  "\<exists>sv. s (work (BreitWignerGenerator_ctor (Finite 16384) (Finite (1 / 8192)) s0 j0) (Finite 0))
          = Finite sv \<and> 301989886 \<le> sv"
proof -
  let ?a = "13176795 / 2 ^ 23 :: real"
  have a: "f32_atan (Finite 134217728) = Finite ?a"
    by (rule f32_atan_large) simp
  have rx: "f64_mul (Finite (1768559462614435 / 2 ^ 49)) (Finite 0) = Finite 0"
    by (simp add: f64_mul_Finite to_double_def)
  have y: "f64_add (fneg (Finite ?a)) (Finite 0) = Finite (- ?a)"
    unfolding fneg.simps f64_add_Finite using to_double_dyadic [of "- 13176795" 23] by simp
  obtain t where t: "f64_tan (Finite (- ?a)) = Finite t" "16777215 \<le> t" "t \<le> 2 ^ 25"
    unfolding f64_tan_Finite [OF tan_float_half_pi(3)]
    using to_double_between [of 16777215 0 "tan (- ?a)" 33554432 0] tan_float_half_pi(1,2) by auto
  obtain u where u: "f64_mul (Finite 2) (Finite t) = Finite u" "33554430 \<le> u" "u \<le> 2 ^ 26"
    unfolding f64_mul_Finite
    using to_double_between [of 33554430 0 "2 * t" 67108864 0] t(2,3) by auto
  obtain sv where sv: "f64_add (Finite u) (Finite 268435456) = Finite sv" "301989886 \<le> sv"
    unfolding f64_add_Finite
    using to_double_between [of 301989886 0 "u + 268435456" 335544320 0] u(2,3) by auto
  show ?thesis
    unfolding work_def Let_def narrow_instance narrow_float_ops narrow_range a rx y t(1) u(1)
    using sv by simp
qed

text \<open>The angle at the sample \<open>2\<^sup>-\<^sup>2\<^sup>5\<close> lies between the pole at \<open>-\<pi>/2\<close> and \<open>-\<pi>/4\<close>.\<close>

lemma tan_past_pole:
  fixes y :: real
  assumes "- (105414354 / 2 ^ 26) \<le> y" "y \<le> - (105414353 / 2 ^ 26)"
  shows "- (2 ^ 25) \<le> tan y" "tan y \<le> - 1" "cos y \<noteq> 0"
proof -
  define d where "d = pi / 2 + y"
  have d: "1 / 2 ^ 25 \<le> d" "d \<le> pi / 4"
    using assms pi_bounds by (simp_all add: d_def)
  have d0: "0 < d" using d(1) by (rule less_le_trans [rotated]) simp
  have "tan y = - tan (- y)" by simp
  also have "- y = pi / 2 - d" by (simp add: d_def)
  finally have eq: "tan y = - tan (pi / 2 - d)" .
  have "1 / d \<le> 2 ^ 25" using d(1) d0 by (simp add: field_simps)
  then show "- (2 ^ 25) \<le> tan y"
    unfolding eq using tan_near_pole(2) [OF d0 d(2)] by linarith
  have "tan (pi / 4) \<le> tan (pi / 2 - d)"
    using d0 d(2) by (intro tan_mono_le) simp_all
  then show "tan y \<le> - 1" unfolding eq by (simp add: tan_45)
  have "0 < cos y"
    using d0 d(2) by (intro cos_gt_zero_pi) (simp_all add: d_def)
  then show "cos y \<noteq> 0" by simp
qed

lemma narrow_s_past_pole:
  "\<exists>sv. s (work (BreitWignerGenerator_ctor (Finite 16384) (Finite (1 / 8192)) s0 j0)
             (Finite (1 / 2 ^ 25)))
          = Finite sv \<and> sv \<le> 268435454"
proof -
  let ?a = "13176795 / 2 ^ 23 :: real"
  have a: "f32_atan (Finite 134217728) = Finite ?a"
    by (rule f32_atan_large) simp
  have rx: "f64_mul (Finite (1768559462614435 / 2 ^ 49)) (Finite (1 / 2 ^ 25)) =
      Finite (1768559462614435 / 2 ^ 74)"
    unfolding f64_mul_Finite using to_double_dyadic [of 1768559462614435 74] by simp
  obtain y where y: "f64_add (fneg (Finite ?a)) (Finite (1768559462614435 / 2 ^ 74)) = Finite y"
      "- (105414354 / 2 ^ 26) \<le> y" "y \<le> - (105414353 / 2 ^ 26)"
    unfolding fneg.simps f64_add_Finite
    using to_double_between [of "- 105414354" 26 "- ?a + 1768559462614435 / 2 ^ 74" "- 105414353" 26]
    by auto
  note ty = tan_past_pole [OF y(2,3)]
  obtain t where t: "f64_tan (Finite y) = Finite t" "- (2 ^ 25) \<le> t" "t \<le> - 1"
    unfolding f64_tan_Finite [OF ty(3)]
    using to_double_between [of "- 33554432" 0 "tan y" "- 1" 0] ty(1,2) by auto
  obtain u where u: "f64_mul (Finite 2) (Finite t) = Finite u" "- (2 ^ 26) \<le> u" "u \<le> - 2"
    unfolding f64_mul_Finite
    using to_double_between [of "- 67108864" 0 "2 * t" "- 2" 0] t(2,3) by auto
  obtain sv where sv: "f64_add (Finite u) (Finite 268435456) = Finite sv" "sv \<le> 268435454"
    unfolding f64_add_Finite
    using to_double_between [of 201326592 0 "u + 268435456" 268435454 0] u(2,3) by auto
  show ?thesis
    unfolding work_def Let_def narrow_instance narrow_float_ops narrow_range a rx y(1) t(1) u(1)
    using sv by simp
qed

subsection \<open>A large mass: the float product overflows\<close>

lemma to_double_special [simp]:
  "to_double PInf = PInf" "to_double NInf = NInf" "to_double NaN = NaN" "to_double (Finite 0) = Finite 0"
  by (simp_all add: to_double_def fround_def)

lemma to_float_special [simp]:
  "to_float PInf = PInf" "to_float NInf = NInf" "to_float NaN = NaN" "to_float (Finite 0) = Finite 0"
  by (simp_all add: to_float_def fround_def)

lemma fround_overflow:
  fixes x :: real
  assumes "2 powr of_int (emax + 1) \<le> x" "emin \<le> emax" "1 \<le> p"
  shows "fround p emin emax (Finite x) = PInf"
proof -
  have x: "0 < x" using assms(1) powr_gt_zero [of 2 "of_int (emax + 1)"] by linarith
  have "of_int (emax + 1) \<le> log 2 x" using assms(1) x by (simp add: le_log_iff)
  then have l: "emax + 1 \<le> \<lfloor>log 2 x\<rfloor>" by (simp add: le_floor_iff)
  have "(2::real) powr of_int (emax + 1) \<le> 2 powr of_int \<lfloor>log 2 x\<rfloor>"
    using l by (intro powr_mono) simp_all
  also have "\<dots> \<le> round_mag p emin x"
    using l assms(2) by (intro round_mag_lower [OF x assms(3)]) simp
  finally show ?thesis
    using x fround_round_mag [of x p emin emax] by simp
qed

lemma to_float_overflow:
  assumes "2 ^ 128 \<le> x"
  shows "to_float (Finite x) = PInf"
  unfolding to_float_def using assms by (intro fround_overflow) simp_all

text \<open>The instance with mass \<open>2\<^sup>6\<^sup>4\<close> and width 1.\<close>

lemma big_instance:
  "mass (BreitWignerGenerator_ctor (Finite (2 ^ 64)) (Finite 1) s0 j0) = Finite (2 ^ 64)"
  "width (BreitWignerGenerator_ctor (Finite (2 ^ 64)) (Finite 1) s0 j0) = Finite 1"
  using to_float_scaled [of 1 64] to_float_dyadic [of 1 0]
  by (simp_all add: BreitWignerGenerator_ctor_def)

lemma big_float_ops:
  "f32_div (Finite (2 ^ 64)) (Finite 1) = Finite (2 ^ 64)"
  "f32_mul (Finite (2 ^ 64)) (Finite 1) = Finite (2 ^ 64)"
  "f32_mul (Finite (2 ^ 64)) (Finite (2 ^ 64)) = PInf"
  using to_float_scaled [of 1 64] to_float_overflow [of "2 ^ 64 * 2 ^ 64"]
  by (simp_all add: f32_div_def f32_mul_def)

lemma fadd_PInf_right: "fadd v PInf = PInf \<or> fadd v PInf = NaN"
  by (cases v) simp_all



text \<open>Angles near zero.\<close>

lemma small_angle:
  fixes y :: real
  assumes "- (1 / 2) \<le> y" "y \<le> 0"
  shows "- 1 \<le> tan y" "tan y \<le> 0" "1 / 2 \<le> cos y" "cos y \<le> 1" "cos y \<noteq> 0"
proof -
  have yl: "- (pi / 2) < y" "- (pi / 4) < y" "y < pi / 2" using assms pi_bounds(1) by simp_all
  have q: "\<bar>y\<bar> < pi / 4" using assms yl by (simp add: abs_if)
  show "- 1 \<le> tan y" using tan_bound_pi2 [OF q] by (simp add: abs_if split: if_splits)
  have "tan y \<le> tan 0" using assms yl by (intro tan_mono_le) simp_all
  then show "tan y \<le> 0" by simp
  have "cos (pi / 3) \<le> cos (- y)"
    using assms pi_bounds(1) by (intro cos_monotone_0_pi_le) simp_all
  then show "1 / 2 \<le> cos y" by (simp add: cos_60)
  then show "cos y \<noteq> 0" by simp
  show "cos y \<le> 1" by simp
qed

lemma pole_half_angle:
  "f64_add (fneg (Finite (13176795 / 2 ^ 23))) (f64_mul (Finite (1768559462614435 / 2 ^ 49)) (Finite (1 / 2)))
     = Finite (- (24607325 / 2 ^ 50))"
proof -
  have rx: "f64_mul (Finite (1768559462614435 / 2 ^ 49)) (Finite (1 / 2)) =
      Finite (1768559462614435 / 2 ^ 50)"
    unfolding f64_mul_Finite using to_double_dyadic [of 1768559462614435 50] by simp
  show ?thesis
    unfolding rx fneg.simps f64_add_Finite using to_double_dyadic [of "- 24607325" 50] by simp
qed

lemma square_enclosed:
  assumes "f64_cos (Finite y) = Finite c" "1 / 2 \<le> \<bar>c\<bar>" "\<bar>c\<bar> \<le> 1"
  shows "\<exists>d. f64_mul (Finite c) (Finite c) = Finite d \<and> 1 / 4 \<le> d \<and> d \<le> 1"
proof -
  have "(1 / 2) * (1 / 2) \<le> \<bar>c\<bar> * \<bar>c\<bar>" using assms(2) by (intro mult_mono) simp_all
  moreover have "\<bar>c\<bar> * \<bar>c\<bar> \<le> 1 * 1" using assms(3) by (intro mult_mono) simp_all
  ultimately have "1 / 4 \<le> c * c" "c * c \<le> 1" by (simp_all add: abs_mult_self_eq)
  then show ?thesis
    unfolding f64_mul_Finite using to_double_between [of 1 2 "c * c" 1 0] by simp
qed

lemma big_outputs_at_half:
  "s (work (BreitWignerGenerator_ctor (Finite (2 ^ 64)) (Finite 1) s0 j0) (Finite (1 / 2))) = PInf"
  "\<exists>jv. jacobian (work (BreitWignerGenerator_ctor (Finite (2 ^ 64)) (Finite 1) s0 j0)
            (Finite (1 / 2))) = Finite jv \<and> 2 ^ 65 \<le> jv"
proof -
  let ?y = "- (24607325 / 2 ^ 50) :: real"
  let ?k = "1768559462614435 * 2 ^ 15 :: real"
  have a: "f32_atan (Finite (2 ^ 64)) = Finite (13176795 / 2 ^ 23)"
    by (rule f32_atan_large) simp
  note ang = small_angle [of ?y, simplified]
  have cy: "cos ?y \<noteq> 0" using ang by simp
  obtain t where t: "f64_tan (Finite ?y) = Finite t" "- 1 \<le> t" "t \<le> 0"
    unfolding f64_tan_Finite [OF cy]
    using to_double_between [of "- 1" 0 "tan ?y" 0 0] ang by auto
  have "- (2 ^ 64) \<le> 2 ^ 64 * t" "2 ^ 64 * t \<le> 0"
    using t(2,3) by (simp_all add: mult_le_0_iff)
  then obtain u where u: "f64_mul (Finite (2 ^ 64)) (Finite t) = Finite u"
    unfolding f64_mul_Finite
    using to_double_enclosed [of "- (2 ^ 64)" "2 ^ 64 * t" 0]
      is_double_scaled [of "- 1" 64] is_double_dyadic [of 0 0] by auto
  show "s (work (BreitWignerGenerator_ctor (Finite (2 ^ 64)) (Finite 1) s0 j0) (Finite (1 / 2))) = PInf"
    unfolding work_def Let_def big_instance big_float_ops a narrow_range pole_half_angle t(1) u
    by (simp add: f64_add_def)
  have n1: "f64_mul (Finite (1768559462614435 / 2 ^ 49)) (Finite (2 ^ 64)) = Finite ?k"
    unfolding f64_mul_Finite using to_double_scaled [of 1768559462614435 15] by simp
  have n2: "f64_mul (Finite ?k) (Finite 1) = Finite ?k"
    unfolding f64_mul_Finite using to_double_scaled [of 1768559462614435 15] by simp
  obtain c where c: "f64_cos (Finite ?y) = Finite c" "1 / 2 \<le> c" "c \<le> 1"
    unfolding f64_cos_Finite
    using to_double_between [of 1 1 "cos ?y" 1 0] ang by auto
  obtain d where d: "f64_mul (Finite c) (Finite c) = Finite d" "1 / 4 \<le> d" "d \<le> 1"
    using square_enclosed [OF c(1)] c(2,3) by auto
  have d0: "0 < d" "d \<noteq> 0" using d(2) by simp_all
  have "?k / 1 \<le> ?k / d" using d(3) d0 by (intro divide_left_mono) simp_all
  moreover have "?k / d \<le> ?k / (1 / 4)" using d(2) d0 by (intro divide_left_mono) simp_all
  ultimately have "2 ^ 65 \<le> ?k / d" "?k / d \<le> 2 ^ 68" by simp_all
  then obtain jv where jv: "f64_div (Finite ?k) (Finite d) = Finite jv" "2 ^ 65 \<le> jv"
    unfolding f64_div_Finite [OF d0(2)]
    using to_double_enclosed [of "2 ^ 65" "?k / d" "2 ^ 68"]
      is_double_scaled [of 1 65] is_double_scaled [of 1 68] by auto
  show "\<exists>jv. jacobian (work (BreitWignerGenerator_ctor (Finite (2 ^ 64)) (Finite 1) s0 j0)
            (Finite (1 / 2))) = Finite jv \<and> 2 ^ 65 \<le> jv"
    unfolding work_def Let_def big_instance big_float_ops a narrow_range pole_half_angle n1 n2
      c(1) d(1)
    using jv by simp
qed

subsection \<open>Small values: the float product underflows\<close>

text \<open>Below half the least positive value of the format, rounding gives zero.\<close>

lemma fround_underflow:
  fixes x :: real
  assumes "0 < x" "x < 2 powr of_int (emin - (p - 1)) / 2" "1 \<le> p"
  shows "fround p emin emax (Finite x) = Finite 0"
proof -
  let ?q = "2 powr of_int (emin - (p - 1)) :: real"
  have q: "0 < ?q" by simp
  have "?q \<le> 2 powr of_int emin" using assms(3) by (intro powr_mono) simp_all
  then have "x < 2 powr of_int emin" using assms(2) q by linarith
  then have "log 2 x < of_int emin" using assms(1) by (simp add: log_less_iff)
  then have "\<lfloor>log 2 x\<rfloor> \<le> emin" by (simp add: floor_le_iff)
  then have m: "max \<lfloor>log 2 x\<rfloor> emin = emin" by simp
  have "x / ?q < 1 / 2" using assms(2) q by (simp add: field_simps)
  moreover have "0 < x / ?q" using assms(1) q by simp
  ultimately have "rne (x / ?q) = 0" by (intro rne_eq) simp_all
  then have r: "round_mag p emin x = 0" unfolding round_mag_def m by simp
  have nz: "x \<noteq> 0" using assms(1) by simp
  show ?thesis
    unfolding fround_round_mag [OF nz] using assms(1) r by simp
qed

lemma two_powr_neg: "(2::real) powr of_int (- int n) = 1 / 2 ^ n"
  using powr_realpow [of "2::real" n] by (simp add: powr_minus divide_inverse)

lemma to_float_underflow:
  assumes "0 < x" "x < 1 / 2 ^ 150"
  shows "to_float (Finite x) = Finite 0"
proof -
  have e: "(- 126 - (24 - 1) :: int) = - int 149" by simp
  have "x < 2 powr of_int (- 126 - (24 - 1)) / 2"
    unfolding e two_powr_neg using assms(2) by simp
  then show ?thesis
    unfolding to_float_def by (rule fround_underflow [OF assms(1)]) simp
qed






text \<open>Configured values below the float range are stored as zero.\<close>

lemma underflow_ctor:
  "BreitWignerGenerator_ctor (Finite (1 / 2 ^ 200)) (Finite (1 / 2 ^ 200)) s0 j0 =
     \<lparr>mass = Finite 0, width = Finite 0, s = s0, jacobian = j0\<rparr>"
  using to_float_underflow [of "1 / 2 ^ 200"] by (simp add: BreitWignerGenerator_ctor_def)

lemma is_double_tiny: "is_double (Finite (1 / 2 ^ 200))"
  using is_double_dyadic [of 1 200] by simp

subsection \<open>Inputs outside the contract\<close>

text \<open>NaN as the second operand.\<close>

lemma fadd_NaN_right [simp]: "fadd v NaN = NaN"
  by (cases v) simp_all

lemma fmul_NaN_right [simp]: "fmul v NaN = NaN"
  by (cases v) simp_all

lemma fdiv_NaN_right [simp]: "fdiv v NaN = NaN"
  by (cases v) simp_all

lemma work_NaN_sample: "work g NaN = g\<lparr>s := NaN, jacobian := NaN\<rparr>"
  by (simp add: work_def Let_def f64_add_def f64_mul_def f64_div_def f64_tan_def f64_cos_def)

lemma work_zero_mass_zero_width:
  "work \<lparr>mass = Finite 0, width = Finite 0, s = s0, jacobian = j0\<rparr> x =
     \<lparr>mass = Finite 0, width = Finite 0, s = NaN, jacobian = NaN\<rparr>"
  by (simp add: work_def Let_def f64_add_def f64_mul_def f64_div_def f64_tan_def f64_cos_def
      f32_div_def f32_atan_def f32_mul_def)

lemma work_overwrites: "work (g\<lparr>s := a, jacobian := b\<rparr>) x = work g x"
  by (simp add: work_def Let_def)

text \<open>Width zero with mass 1, at the sample 0.5.\<close>

lemma work_zero_width:
  "work \<lparr>mass = Finite 1, width = Finite 0, s = s0, jacobian = j0\<rparr> (Finite (1 / 2)) =
     \<lparr>mass = Finite 1, width = Finite 0, s = Finite 1, jacobian = Finite 0\<rparr>"
proof -
  let ?y = "- (24607325 / 2 ^ 50) :: real"
  let ?r = "1768559462614435 / 2 ^ 49 :: real"
  have q: "f32_div (Finite 1) (Finite 0) = PInf" by (simp add: f32_div_def)
  have p: "f32_mul (Finite 1) (Finite 0) = Finite 0" "f32_mul (Finite 1) (Finite 1) = Finite 1"
    by (simp_all add: f32_mul_def to_float_one)
  note ang = small_angle [of ?y, simplified]
  have cy: "cos ?y \<noteq> 0" using ang by simp
  obtain t where t: "f64_tan (Finite ?y) = Finite t"
    unfolding f64_tan_Finite [OF cy]
    using to_double_between [of "- 1" 0 "tan ?y" 0 0] ang by auto
  have u: "f64_mul (Finite 0) (Finite t) = Finite 0" by (simp add: f64_mul_Finite)
  have sv: "f64_add (Finite 0) (Finite 1) = Finite 1"
    unfolding f64_add_Finite using to_double_dyadic [of 1 0] by simp
  have n1: "f64_mul (Finite ?r) (Finite 1) = Finite ?r"
    unfolding f64_mul_Finite using to_double_dyadic [of 1768559462614435 49] by simp
  have n2: "f64_mul (Finite ?r) (Finite 0) = Finite 0" by (simp add: f64_mul_Finite)
  obtain c where c: "f64_cos (Finite ?y) = Finite c" "1 / 2 \<le> c" "c \<le> 1"
    unfolding f64_cos_Finite
    using to_double_between [of 1 1 "cos ?y" 1 0] ang by auto
  obtain d where d: "f64_mul (Finite c) (Finite c) = Finite d" "1 / 4 \<le> d"
    using square_enclosed [OF c(1)] c(2,3) by auto
  have d0: "d \<noteq> 0" using d(2) by simp
  have jv: "f64_div (Finite 0) (Finite d) = Finite 0"
    by (simp add: f64_div_Finite [OF d0])
  have g: "mass \<lparr>mass = Finite 1, width = Finite 0, s = s0, jacobian = j0\<rparr> = Finite 1"
    "width \<lparr>mass = Finite 1, width = Finite 0, s = s0, jacobian = j0\<rparr> = Finite 0"
    by simp_all
  show ?thesis
    unfolding work_def Let_def g q p f32_atan_PInf narrow_range pole_half_angle t u sv n1 n2
      c(1) d(1) jv
    by simp
qed

text \<open>A negative width or a negative mass, at the sample 0.\<close>

lemma work_negative:
  assumes "mass g = Finite m" "width g = Finite w"
    and "m = 1 \<and> w = - 1 \<or> m = - 1 \<and> w = 1"
  shows "\<exists>sv jv. s (work g (Finite 0)) = Finite sv \<and> jacobian (work g (Finite 0)) = Finite jv \<and>
           jv \<le> - (1 / 2)"
proof -
  let ?a = "13176795 / 2 ^ 24 :: real"
  let ?r = "442139847198115 / 2 ^ 49 :: real"
  have m1: "to_float (Finite (- 1)) = Finite (- 1)"
    using to_float_dyadic [of "- 1" 0] by simp
  have fl: "f32_div (Finite m) (Finite w) = Finite (- 1)"
    "f32_mul (Finite m) (Finite w) = Finite (- 1)" "f32_mul (Finite m) (Finite m) = Finite 1"
    using assms(3) by (auto simp: f32_div_def f32_mul_def m1 to_float_one)
  have a: "f32_atan (Finite (- 1)) = Finite (- ?a)"
    using fround_minus [of 24 "- 126" 127 "pi / 4"] to_float_quarter_pi
    by (simp add: f32_atan_def arctan_minus arctan_one to_float_def)
  have range: "f64_add (f64_div M_PI (Finite 2)) (Finite (- ?a)) = Finite ?r"
    unfolding half_M_PI f64_add_Finite using to_double_dyadic [of 442139847198115 49] by simp
  have rx: "f64_mul (Finite ?r) (Finite 0) = Finite 0" by (simp add: f64_mul_Finite)
  have y: "f64_add (fneg (Finite (- ?a))) (Finite 0) = Finite ?a"
    unfolding fneg.simps f64_add_Finite using to_double_dyadic [of 13176795 24] by simp
  have a3: "0 \<le> ?a" "?a \<le> pi / 3" using pi_bounds(1) by simp_all
  have "cos (pi / 3) \<le> cos ?a"
    using a3 by (intro cos_monotone_0_pi_le) simp_all
  then have ca: "1 / 2 \<le> cos ?a" "cos ?a \<noteq> 0" by (simp_all add: cos_60)
  have "tan ?a \<le> tan (pi / 3)" using a3 by (intro tan_mono_le) simp_all
  moreover have "sqrt 3 \<le> 2" by (rule real_le_lsqrt) simp_all
  moreover have "0 \<le> tan ?a" using a3 by (intro tan_pos_pi2_le) simp_all
  ultimately have ta: "0 \<le> tan ?a" "tan ?a \<le> 2" by (simp_all add: tan_60)
  obtain t where t: "f64_tan (Finite ?a) = Finite t" "0 \<le> t" "t \<le> 2"
    unfolding f64_tan_Finite [OF ca(2)]
    using to_double_between [of 0 0 "tan ?a" 2 0] ta by auto
  obtain u where u: "f64_mul (Finite (- 1)) (Finite t) = Finite u" "- 2 \<le> u" "u \<le> 0"
    unfolding f64_mul_Finite
    using to_double_between [of "- 2" 0 "- 1 * t" 0 0] t(2,3) by auto
  obtain sv where sv: "f64_add (Finite u) (Finite 1) = Finite sv"
    unfolding f64_add_Finite
    using to_double_between [of "- 1" 0 "u + 1" 1 0] u(2,3) by auto
  have n: "f64_mul (f64_mul (Finite ?r) (Finite m)) (Finite w) = Finite (- ?r)"
    using assms(3) to_double_dyadic [of 442139847198115 49] to_double_dyadic [of "- 442139847198115" 49]
    by (auto simp: f64_mul_Finite)
  obtain c where c: "f64_cos (Finite ?a) = Finite c" "1 / 2 \<le> c" "c \<le> 1"
    unfolding f64_cos_Finite
    using to_double_between [of 1 1 "cos ?a" 1 0] ca(1) by auto
  obtain d where d: "f64_mul (Finite c) (Finite c) = Finite d" "1 / 4 \<le> d" "d \<le> 1"
    using square_enclosed [OF c(1)] c(2,3) by auto
  have d0: "0 < d" "d \<noteq> 0" using d(2) by simp_all
  have "- ?r / d \<le> - ?r / 1" using d(3) d0 by (simp add: field_simps)
  moreover have "- ?r / (1 / 4) \<le> - ?r / d" using d(2) d0 by (simp add: field_simps)
  ultimately have "- 4 \<le> - ?r / d" "- ?r / d \<le> - (1 / 2)" by simp_all
  then obtain jv where jv: "f64_div (Finite (- ?r)) (Finite d) = Finite jv" "jv \<le> - (1 / 2)"
    unfolding f64_div_Finite [OF d0(2)]
    using to_double_between [of "- 4" 0 "- ?r / d" "- 1" 1] by auto
  show ?thesis
    unfolding work_def Let_def assms(1,2) fl a range rx y t(1) u(1) n c(1) d(1)
    using sv jv by simp
qed

text \<open>The unit instance at the sample 2, outside \<open>[0, 1)\<close>.\<close>

lemma work_sample_two:
  "\<exists>sv jv.
     s (work (BreitWignerGenerator_ctor (Finite 1) (Finite 1) s0 j0) (Finite 2)) = Finite sv \<and>
     jacobian (work (BreitWignerGenerator_ctor (Finite 1) (Finite 1) s0 j0) (Finite 2)) = Finite jv \<and>
     2 \<le> sv \<and> 2 \<le> jv"
proof -
  let ?y = "1105349654906275 / 2 ^ 48 :: real"
  let ?r = "1326419590808995 / 2 ^ 49 :: real"
  have q: "f32_div (Finite 1) (Finite 1) = Finite 1"
    by (simp add: f32_div_def to_float_one)
  have p: "f32_mul (Finite 1) (Finite 1) = Finite 1"
    by (simp add: f32_mul_def to_float_one)
  have range: "f64_add (f64_div M_PI (Finite 2)) (Finite (13176795 / 2 ^ 24)) = Finite ?r"
    unfolding half_M_PI f64_add_Finite using to_double_dyadic [of 1326419590808995 49] by simp
  have rx: "f64_mul (Finite ?r) (Finite 2) = Finite (1326419590808995 / 2 ^ 48)"
    unfolding f64_mul_Finite using to_double_dyadic [of 1326419590808995 48] by simp
  have y: "f64_add (fneg (Finite (13176795 / 2 ^ 24))) (Finite (1326419590808995 / 2 ^ 48)) = Finite ?y"
    unfolding fneg.simps f64_add_Finite using to_double_dyadic [of 1105349654906275 48] by simp
  define z where "z = ?y - pi"
  have z: "pi / 4 \<le> z" "z \<le> pi / 3" using pi_bounds by (simp_all add: z_def)
  have yz: "?y = z + pi" by (simp add: z_def)
  have "tan (pi / 4) \<le> tan z" using z pi_bounds(1) by (intro tan_mono_le) simp_all
  moreover have "tan z \<le> tan (pi / 3)" using z pi_bounds(1) by (intro tan_mono_le) simp_all
  moreover have "sqrt 3 \<le> 2" by (rule real_le_lsqrt) simp_all
  ultimately have ty: "1 \<le> tan ?y" "tan ?y \<le> 2"
    unfolding yz by (simp_all add: tan_45 tan_60)
  have "cos (pi / 3) \<le> cos z" using z pi_bounds(1) by (intro cos_monotone_0_pi_le) simp_all
  then have cy: "- 1 \<le> cos ?y" "cos ?y \<le> - (1 / 2)" "cos ?y \<noteq> 0"
    unfolding yz by (simp_all add: cos_60)
  obtain t where t: "f64_tan (Finite ?y) = Finite t" "1 \<le> t" "t \<le> 2"
    unfolding f64_tan_Finite [OF cy(3)]
    using to_double_between [of 1 0 "tan ?y" 2 0] ty by auto
  obtain u where u: "f64_mul (Finite 1) (Finite t) = Finite u" "1 \<le> u" "u \<le> 2"
    unfolding f64_mul_Finite
    using to_double_between [of 1 0 "1 * t" 2 0] t(2,3) by auto
  obtain sv where sv: "f64_add (Finite u) (Finite 1) = Finite sv" "2 \<le> sv"
    unfolding f64_add_Finite
    using to_double_between [of 2 0 "u + 1" 3 0] u(2,3) by auto
  have r1: "f64_mul (Finite ?r) (Finite 1) = Finite ?r"
    unfolding f64_mul_Finite using to_double_dyadic [of 1326419590808995 49] by simp
  obtain c where c: "f64_cos (Finite ?y) = Finite c" "- 1 \<le> c" "c \<le> - (1 / 2)"
    unfolding f64_cos_Finite
    using to_double_between [of "- 1" 0 "cos ?y" "- 1" 1] cy by auto
  obtain d where d: "f64_mul (Finite c) (Finite c) = Finite d" "1 / 4 \<le> d" "d \<le> 1"
    using square_enclosed [OF c(1)] c(2,3) by auto
  have d0: "0 < d" "d \<noteq> 0" using d(2) by simp_all
  have "?r / 1 \<le> ?r / d" using d(3) d0 by (intro divide_left_mono) simp_all
  moreover have "?r / d \<le> ?r / (1 / 4)" using d(2) d0 by (intro divide_left_mono) simp_all
  ultimately have "2 \<le> ?r / d" "?r / d \<le> 16" by simp_all
  then obtain jv where jv: "f64_div (Finite ?r) (Finite d) = Finite jv" "2 \<le> jv"
    unfolding f64_div_Finite [OF d0(2)]
    using to_double_between [of 2 0 "?r / d" 16 0] by auto
  show ?thesis
    unfolding work_def Let_def unit_instance q f32_atan_one range rx y t(1) p u(1) r1 c(1) d(1)
    using sv jv by simp
qed

text \<open>The four steps of the specification give \<open>s = 0\<close> at the sample 0.\<close>

lemma evaluate_spec_s_at_zero:
  assumes "w \<noteq> 0"
  shows "fst (evaluate_spec (Finite m) (Finite w) (Finite 0)) = Finite 0"
proof -
  have "sin (arctan (m / w)) / cos (arctan (m / w)) = m / w"
    using tan_arctan [of "m / w"] by (simp add: tan_def)
  then show ?thesis
    using assms by (simp add: evaluate_spec_def Let_def power2_eq_square)
qed

lemma to_float_twice: "to_float (to_float v) = to_float v"
  by (rule to_float_idem [OF to_float_is_float])

subsection \<open>A moderate width: the sample 0\<close>

text \<open>The instance with mass 128 and width \<open>1/256\<close>: both are floats.\<close>

lemma moderate_instance:
  "mass (BreitWignerGenerator_ctor (Finite 128) (Finite (1 / 256)) s0 j0) = Finite 128"
  "width (BreitWignerGenerator_ctor (Finite 128) (Finite (1 / 256)) s0 j0) = Finite (1 / 256)"
  using to_float_dyadic [of 128 0] to_float_dyadic [of 1 8]
  by (simp_all add: BreitWignerGenerator_ctor_def)

lemma moderate_float_ops:
  "f32_div (Finite 128) (Finite (1 / 256)) = Finite 32768"
  "f32_mul (Finite 128) (Finite (1 / 256)) = Finite (1 / 2)"
  "f32_mul (Finite 128) (Finite 128) = Finite 16384"
  using to_float_dyadic [of 32768 0] to_float_dyadic [of 1 1] to_float_dyadic [of 16384 0]
  by (simp_all add: f32_div_def f32_mul_def)

text \<open>The float arctangent of \<open>32768\<close> lies above the arctangent.\<close>

lemma arctan_32768:
  "pi / 2 - 1 / 32768 \<le> arctan 32768" "arctan 32768 \<le> pi / 2 - 1 / 32768 + 1 / 2 ^ 45"
proof -
  have e: "arctan 32768 = pi / 2 - arctan (1 / 32768)"
    by (rule arctan_large(1)) simp
  have u: "arctan (1 / 32768) \<le> 1 / 32768"
    by (rule arctan_le_self) simp_all
  have "(\<Sum>i<2 * 1. (- 1) ^ i * (1 / real (i * 2 + 1) * (1 / 32768) ^ (i * 2 + 1)))
      \<le> arctan (1 / 32768)"
    by (rule arctan_bracket(1)) simp_all
  then have l: "1 / 32768 - 1 / 2 ^ 45 \<le> arctan (1 / 32768)"
    by (simp add: lessThan_nat_numeral numeral_eq_Suc)
  show "pi / 2 - 1 / 32768 \<le> arctan 32768" unfolding e using u by simp
  show "arctan 32768 \<le> pi / 2 - 1 / 32768 + 1 / 2 ^ 45" unfolding e using l by simp
qed

lemma f32_atan_32768: "f32_atan (Finite 32768) = Finite (13176539 / 2 ^ 23)"
proof -
  have "fround 24 (- 126) 127 (Finite (arctan 32768)) =
      Finite (of_int 13176539 * 2 powr of_int (0 - (24 - 1)))"
    using arctan_32768 pi_bounds by (intro fround_eval) (simp_all add: powr_minus field_simps)
  then show ?thesis by (simp add: f32_atan_def to_float_def powr_minus field_simps)
qed

lemma moderate_range:
  "f64_add (f64_div M_PI (Finite 2)) (Finite (13176539 / 2 ^ 23)) =
     Finite (1768542282745251 / 2 ^ 49)"
  unfolding half_M_PI f64_add_Finite using to_double_dyadic [of 1768542282745251 49] by simp

lemma tan_float_atan_32768:
  "- 32818 \<le> tan (- (13176539 / 2 ^ 23 :: real))" "tan (- (13176539 / 2 ^ 23 :: real)) \<le> - 32809"
  "cos (- (13176539 / 2 ^ 23 :: real)) \<noteq> 0"
proof -
  let ?a = "13176539 / 2 ^ 23 :: real"
  define d where "d = pi / 2 - ?a"
  have d: "30472 / 10 ^ 9 \<le> d" "d \<le> 30478 / 10 ^ 9" using pi_bounds by (simp_all add: d_def)
  have d0: "0 < d" using d(1) by (rule less_le_trans [rotated]) simp
  have d4: "d \<le> pi / 4" using d(2) pi_bounds(1) by simp
  have eq: "tan (- ?a) = - tan (pi / 2 - d)" by (simp add: d_def)
  have "1 / d \<le> 32818" using d(1) d0 by (simp add: field_simps)
  then show "- 32818 \<le> tan (- ?a)"
    unfolding eq using tan_near_pole(2) [OF d0 d4] by linarith
  have "32810 \<le> 1 / d" using d(2) d0 by (simp add: field_simps)
  then show "tan (- ?a) \<le> - 32809"
    unfolding eq using tan_near_pole_lower [OF d0 d4] by linarith
  have "cos (pi / 2) < cos ?a"
    using pi_bounds by (intro cos_monotone_0_pi) simp_all
  then show "cos (- ?a) \<noteq> 0" by simp
qed

lemma moderate_s_at_zero:
  "\<exists>sv. s (work (BreitWignerGenerator_ctor (Finite 128) (Finite (1 / 256)) s0 j0) (Finite 0))
          = Finite sv \<and> - 25 \<le> sv \<and> sv \<le> - 20"
proof -
  let ?a = "13176539 / 2 ^ 23 :: real"
  have rx: "f64_mul (Finite (1768542282745251 / 2 ^ 49)) (Finite 0) = Finite 0"
    by (simp add: f64_mul_Finite to_double_def)
  have y: "f64_add (fneg (Finite ?a)) (Finite 0) = Finite (- ?a)"
    unfolding fneg.simps f64_add_Finite using to_double_dyadic [of "- 13176539" 23] by simp
  obtain t where t: "f64_tan (Finite (- ?a)) = Finite t" "- 32818 \<le> t" "t \<le> - 32809"
    unfolding f64_tan_Finite [OF tan_float_atan_32768(3)]
    using to_double_between [of "- 32818" 0 "tan (- ?a)" "- 32809" 0] tan_float_atan_32768(1,2)
    by auto
  obtain u where u: "f64_mul (Finite (1 / 2)) (Finite t) = Finite u"
      "- (32818 / 2) \<le> u" "u \<le> - (32809 / 2)"
    unfolding f64_mul_Finite
    using to_double_between [of "- 32818" 1 "1 / 2 * t" "- 32809" 1] t(2,3) by auto
  obtain sv where sv: "f64_add (Finite u) (Finite 16384) = Finite sv" "- 25 \<le> sv" "sv \<le> - 20"
    unfolding f64_add_Finite
    using to_double_between [of "- 25" 0 "u + 16384" "- 20" 0] u(2,3) by auto
  show ?thesis
    unfolding work_def Let_def moderate_instance moderate_float_ops f32_atan_32768 moderate_range
      rx y t(1) u(1)
    using sv by simp
qed

subsection \<open>The conversion to float at given values\<close>

lemma floor_log2_unit:
  fixes x :: real
  assumes "1 \<le> x" "x < 2"
  shows "\<lfloor>log 2 x\<rfloor> = 0"
  using assms floor_log_eq_powr_iff [of x 2 0] by simp

lemma to_float_example: "to_float (Finite (1 + 1 / 2 ^ 30)) = Finite 1"
proof -
  have e: "\<lfloor>log 2 \<bar>1 + 1 / 2 ^ 30 :: real\<bar>\<rfloor> = 0"
    by (rule floor_log2_unit) simp_all
  have f: "\<lfloor>8388608 + 1 / 128 :: real\<rfloor> = 8388608"
    by (simp add: floor_eq_iff)
  have r: "rne (8388608 + 1 / 128) = 8388608"
    unfolding rne_def f by simp
  have q: "\<bar>1 + 1 / 2 ^ 30 :: real\<bar> / 2 powr of_int (0 - (24 - 1)) = 8388608 + 1 / 128"
    by (simp add: powr_minus)
  show ?thesis
    unfolding to_float_def fround_def using e q r
    by (simp add: Let_def powr_minus)
qed

lemma is_double_example: "is_double (Finite (1 + 1 / 2 ^ 30))"
proof -
  have e: "\<lfloor>log 2 \<bar>1 + 1 / 2 ^ 30 :: real\<bar>\<rfloor> = 0"
    by (rule floor_log2_unit) simp_all
  have q: "\<bar>1 + 1 / 2 ^ 30 :: real\<bar> / 2 powr of_int (0 - (53 - 1)) = of_int 4503599631564800"
    by (simp add: powr_minus)
  show ?thesis
    unfolding is_double_def representable_def using e q
    by (simp add: Let_def del: of_int_numeral)
qed

section \<open>The claims\<close>

text \<open>
  C1. The claim has the two outputs computed by the four steps
  \<open>range = \<pi>/2 + atan(mass/width)\<close>, \<open>y = -atan(mass/width) + range * x\<close>,
  \<open>s = mass * width * tan(y) + mass\<^sup>2\<close>, \<open>jacobian = range * mass * width / cos(y)\<^sup>2\<close>. The
  members are \<^verbatim>\<open>float\<close>, so the arctangent is rounded to \<^verbatim>\<open>float\<close>: with mass 128 and
  width \<open>1/256\<close>, both of them floats, the four steps give \<open>s = 0\<close> at the sample 0, and
  \<open>work\<close> gives an \<open>s\<close> between \<open>-25\<close> and \<open>-20\<close>.
\<close>

theorem work_departs_from_four_steps:
  "fst (evaluate_spec (Finite 128) (Finite (1 / 256)) (Finite 0)) = Finite 0 \<and>
   (\<exists>sv. s (work (BreitWignerGenerator_ctor (Finite 128) (Finite (1 / 256)) s0 j0) (Finite 0))
            = Finite sv \<and> - 25 \<le> sv \<and> sv \<le> - 20)"
  using evaluate_spec_s_at_zero [of "1 / 256" 128] moderate_s_at_zero [of s0 j0] by simp

text \<open>
  C2. \<open>dimensions()\<close> returns 1 for every instance, whatever mass and width it was
  constructed with.
\<close>

theorem dimensions_always_one:
  "dimensions g = 1 \<and> dimensions (BreitWignerGenerator_ctor m w s0 j0) = 1"
  by (simp add: dimensions_def)

text \<open>
  C3. The claim has \<open>s\<close> finite and \<open>jacobian\<close> positive for every positive mass and
  width and every sample in \<open>[0, 1)\<close>. The product \<^verbatim>\<open>mass * mass\<close> is a \<^verbatim>\<open>float\<close> product:
  with mass \<open>2\<^sup>6\<^sup>4\<close>, a float, and width 1 it overflows, and at the sample 0.5 the output
  \<open>s\<close> is \<open>+\<infinity>\<close>. The members are \<^verbatim>\<open>float\<close>: the positive double \<open>2\<^sup>-\<^sup>2\<^sup>0\<^sup>0\<close>, configured
  as mass and as width, is stored as 0 in both, and \<open>jacobian\<close> is NaN at every sample.
\<close>

theorem work_s_infinite_jacobian_nan:
  "s (work (BreitWignerGenerator_ctor (Finite (2 ^ 64)) (Finite 1) s0 j0) (Finite (1 / 2))) = PInf \<and>
   is_double (Finite (1 / 2 ^ 200)) \<and>
   jacobian (work (BreitWignerGenerator_ctor (Finite (1 / 2 ^ 200)) (Finite (1 / 2 ^ 200)) s0 j0) x)
     = NaN"
  unfolding underflow_ctor work_zero_mass_zero_width
  using big_outputs_at_half(1) [of s0 j0] is_double_tiny by simp

text \<open>
  C4. The claim has \<open>s\<close> strictly increasing in the sample over \<open>[0, 1)\<close>. With mass
  \<open>2\<^sup>1\<^sup>4\<close> and width \<open>2\<^sup>-\<^sup>1\<^sup>3\<close> the \<^verbatim>\<open>float\<close> arctangent of \<open>mass/width\<close> is the float nearest
  to \<open>\<pi>/2\<close>, which lies above \<open>\<pi>/2\<close>: the angle starts below the pole at \<open>-\<pi>/2\<close> and
  crosses it, and \<open>s\<close> at the sample \<open>2\<^sup>-\<^sup>2\<^sup>5\<close> is less than \<open>s\<close> at the sample 0.
\<close>

theorem work_s_decreases:
  "fless
     (s (work (BreitWignerGenerator_ctor (Finite 16384) (Finite (1 / 8192)) s0 j0)
          (Finite (1 / 2 ^ 25))))
     (s (work (BreitWignerGenerator_ctor (Finite 16384) (Finite (1 / 8192)) s0 j0) (Finite 0)))"
proof -
  obtain a where a: "s (work (BreitWignerGenerator_ctor (Finite 16384) (Finite (1 / 8192)) s0 j0)
      (Finite (1 / 2 ^ 25))) = Finite a" "a \<le> 268435454"
    using narrow_s_past_pole [of s0 j0] by blast
  obtain b where b: "s (work (BreitWignerGenerator_ctor (Finite 16384) (Finite (1 / 8192)) s0 j0)
      (Finite 0)) = Finite b" "301989886 \<le> b"
    using narrow_s_at_zero [of s0 j0] by blast
  have "a < b" using a(2) b(2) by linarith
  then show ?thesis unfolding a(1) b(1) by simp
qed


text \<open>
  C6. The claim has \<open>s = 0\<close> at the sample 0. The \<^verbatim>\<open>float\<close> arctangent is not the
  arctangent, and its tangent is not \<open>mass/width\<close>: with mass 128 and width \<open>1/256\<close> the
  output \<open>s\<close> at the sample 0 lies between \<open>-25\<close> and \<open>-20\<close>; with mass \<open>2\<^sup>1\<^sup>4\<close> and width
  \<open>2\<^sup>-\<^sup>1\<^sup>3\<close>, where \<open>mass\<^sup>2\<close> is 268435456, it is at least 301989886.
\<close>

theorem work_s_at_zero_not_zero:
  "(\<exists>sv. s (work (BreitWignerGenerator_ctor (Finite 128) (Finite (1 / 256)) s0 j0) (Finite 0))
            = Finite sv \<and> - 25 \<le> sv \<and> sv \<le> - 20) \<and>
   (\<exists>sv. s (work (BreitWignerGenerator_ctor (Finite 16384) (Finite (1 / 8192)) s0 j0) (Finite 0))
            = Finite sv \<and> 301989886 \<le> sv)"
  using moderate_s_at_zero [of s0 j0] narrow_s_at_zero [of s0 j0] by blast

text \<open>
  C7 (as amended). With mass 1, width 1 and the sample 0.5, \<open>s\<close> is within \<open>10\<^sup>-\<^sup>5\<close> of
  1.41421 and \<open>jacobian\<close> is within \<open>10\<^sup>-\<^sup>5\<close> of 2.76045.
\<close>

theorem midpoint_values:
  "fclose (s (work (BreitWignerGenerator_ctor (Finite 1) (Finite 1) s0 j0) (Finite (1 / 2))))
     1.41421 0.00001 \<and>
   fclose (jacobian (work (BreitWignerGenerator_ctor (Finite 1) (Finite 1) s0 j0) (Finite (1 / 2))))
     2.76045 0.00001"
proof -
  obtain sv jv where v:
    "s (work (BreitWignerGenerator_ctor (Finite 1) (Finite 1) s0 j0) (Finite (1 / 2))) = Finite sv"
    "jacobian (work (BreitWignerGenerator_ctor (Finite 1) (Finite 1) s0 j0) (Finite (1 / 2)))
       = Finite jv"
    "1518500204 / 2 ^ 30 \<le> sv" "sv \<le> 1518500259 / 2 ^ 30"
    "2964013893 / 2 ^ 30 \<le> jv" "jv \<le> 2964014673 / 2 ^ 30"
    using midpoint_enclosed [of s0 j0] by blast
  have "\<bar>sv - 1.41421\<bar> \<le> 0.00001" using v(3,4) by (simp add: abs_le_iff)
  moreover have "\<bar>jv - 2.76045\<bar> \<le> 0.00001" using v(5,6) by (simp add: abs_le_iff)
  ultimately show ?thesis unfolding v(1,2) by simp
qed

text \<open>
  C7 as stated fails: at mass 1, width 1 and the sample 0.5 the output \<open>jacobian\<close> is
  more than \<open>10\<^sup>-\<^sup>5\<close> away from 2.7603.
\<close>

theorem midpoint_spec_values_counterexample:
  "\<not> (fclose (s (work (BreitWignerGenerator_ctor (Finite 1) (Finite 1) (Finite 0) (Finite 0))
                      (Finite (1 / 2)))) 1.41421 0.00001 \<and>
       fclose (jacobian (work (BreitWignerGenerator_ctor (Finite 1) (Finite 1) (Finite 0) (Finite 0))
                      (Finite (1 / 2)))) 2.7603 0.00001)"
proof -
  obtain sv jv where v:
    "jacobian (work (BreitWignerGenerator_ctor (Finite 1) (Finite 1) (Finite 0) (Finite 0))
       (Finite (1 / 2))) = Finite jv"
    "2964013893 / 2 ^ 30 \<le> jv"
    using midpoint_enclosed [of "Finite 0" "Finite 0"] by blast
  have "\<not> \<bar>jv - 2.7603\<bar> \<le> 0.00001" using v(2) by (simp add: abs_le_iff)
  then show ?thesis unfolding v(1) by simp
qed

text \<open>
  C8. A call of \<open>work\<close> leaves nothing behind that a later call reads: the same sample
  twice gives the same two outputs, the state after a call does not depend on any
  earlier call, and no call changes mass or width.
\<close>

theorem work_stateless:
  "s (work (work g x) x) = s (work g x) \<and>
   jacobian (work (work g x) x) = jacobian (work g x) \<and>
   work (work g x') x = work g x \<and>
   mass (work g x) = mass g \<and> width (work g x) = width g"
  by (simp add: work_def Let_def)

text \<open>
  C9. \<open>work\<close> rejects nothing. On every object and sample the two outputs are the
  values of one arithmetic expression in the mass, the width and the sample, with no
  case distinction; both are assigned whatever the slots held before, and nothing else
  changes; a NaN sample gives NaN for both. A zero width with mass 1 gives the pair
  \<open>(1, 0)\<close> at the sample 0.5; zero mass and zero width give NaN for both at every
  sample; a negative width, and a negative mass, give finite outputs with a negative
  \<open>jacobian\<close> at the sample 0; the sample 2, outside \<open>[0, 1)\<close>, gives finite outputs at
  mass 1 and width 1.
\<close>

theorem work_never_rejects:
  "s (work g x) =
     f64_add
       (f64_mul (f32_mul (mass g) (width g))
          (f64_tan
             (f64_add (fneg (f32_atan (f32_div (mass g) (width g))))
                (f64_mul
                   (f64_add (f64_div M_PI (Finite 2)) (f32_atan (f32_div (mass g) (width g))))
                   x))))
       (f32_mul (mass g) (mass g)) \<and>
   jacobian (work g x) =
     f64_div
       (f64_mul
          (f64_mul (f64_add (f64_div M_PI (Finite 2)) (f32_atan (f32_div (mass g) (width g))))
             (mass g))
          (width g))
       (f64_mul
          (f64_cos
             (f64_add (fneg (f32_atan (f32_div (mass g) (width g))))
                (f64_mul
                   (f64_add (f64_div M_PI (Finite 2)) (f32_atan (f32_div (mass g) (width g))))
                   x)))
          (f64_cos
             (f64_add (fneg (f32_atan (f32_div (mass g) (width g))))
                (f64_mul
                   (f64_add (f64_div M_PI (Finite 2)) (f32_atan (f32_div (mass g) (width g))))
                   x)))) \<and>
   work (g\<lparr>s := a, jacobian := b\<rparr>) x = work g x \<and>
   (\<exists>sv jv. work g x = g\<lparr>s := sv, jacobian := jv\<rparr>) \<and>
   work g NaN = g\<lparr>s := NaN, jacobian := NaN\<rparr> \<and>
   work \<lparr>mass = Finite 1, width = Finite 0, s = s0, jacobian = j0\<rparr> (Finite (1 / 2)) =
     \<lparr>mass = Finite 1, width = Finite 0, s = Finite 1, jacobian = Finite 0\<rparr> \<and>
   work \<lparr>mass = Finite 0, width = Finite 0, s = s0, jacobian = j0\<rparr> x =
     \<lparr>mass = Finite 0, width = Finite 0, s = NaN, jacobian = NaN\<rparr> \<and>
   (\<exists>sv jv.
      s (work \<lparr>mass = Finite 1, width = Finite (- 1), s = s0, jacobian = j0\<rparr> (Finite 0))
        = Finite sv \<and>
      jacobian (work \<lparr>mass = Finite 1, width = Finite (- 1), s = s0, jacobian = j0\<rparr> (Finite 0))
        = Finite jv \<and> jv \<le> - (1 / 2)) \<and>
   (\<exists>sv jv.
      s (work \<lparr>mass = Finite (- 1), width = Finite 1, s = s0, jacobian = j0\<rparr> (Finite 0))
        = Finite sv \<and>
      jacobian (work \<lparr>mass = Finite (- 1), width = Finite 1, s = s0, jacobian = j0\<rparr> (Finite 0))
        = Finite jv \<and> jv \<le> - (1 / 2)) \<and>
   (\<exists>sv jv.
      s (work (BreitWignerGenerator_ctor (Finite 1) (Finite 1) s0 j0) (Finite 2)) = Finite sv \<and>
      jacobian (work (BreitWignerGenerator_ctor (Finite 1) (Finite 1) s0 j0) (Finite 2))
        = Finite jv \<and> 2 \<le> sv \<and> 2 \<le> jv)"
proof -
  have e: "s (work g x) =
     f64_add
       (f64_mul (f32_mul (mass g) (width g))
          (f64_tan
             (f64_add (fneg (f32_atan (f32_div (mass g) (width g))))
                (f64_mul
                   (f64_add (f64_div M_PI (Finite 2)) (f32_atan (f32_div (mass g) (width g))))
                   x))))
       (f32_mul (mass g) (mass g))"
    "jacobian (work g x) =
     f64_div
       (f64_mul
          (f64_mul (f64_add (f64_div M_PI (Finite 2)) (f32_atan (f32_div (mass g) (width g))))
             (mass g))
          (width g))
       (f64_mul
          (f64_cos
             (f64_add (fneg (f32_atan (f32_div (mass g) (width g))))
                (f64_mul
                   (f64_add (f64_div M_PI (Finite 2)) (f32_atan (f32_div (mass g) (width g))))
                   x)))
          (f64_cos
             (f64_add (fneg (f32_atan (f32_div (mass g) (width g))))
                (f64_mul
                   (f64_add (f64_div M_PI (Finite 2)) (f32_atan (f32_div (mass g) (width g))))
                   x))))"
    by (simp_all add: work_def Let_def)
  have p: "\<exists>sv jv. work g x = g\<lparr>s := sv, jacobian := jv\<rparr>"
    unfolding work_def Let_def by blast
  have n1: "\<exists>sv jv.
      s (work \<lparr>mass = Finite 1, width = Finite (- 1), s = s0, jacobian = j0\<rparr> (Finite 0))
        = Finite sv \<and>
      jacobian (work \<lparr>mass = Finite 1, width = Finite (- 1), s = s0, jacobian = j0\<rparr> (Finite 0))
        = Finite jv \<and> jv \<le> - (1 / 2)"
    by (rule work_negative [of _ 1 "- 1"]) simp_all
  have n2: "\<exists>sv jv.
      s (work \<lparr>mass = Finite (- 1), width = Finite 1, s = s0, jacobian = j0\<rparr> (Finite 0))
        = Finite sv \<and>
      jacobian (work \<lparr>mass = Finite (- 1), width = Finite 1, s = s0, jacobian = j0\<rparr> (Finite 0))
        = Finite jv \<and> jv \<le> - (1 / 2)"
    by (rule work_negative [of _ "- 1" 1]) simp_all
  have r: "work (g\<lparr>s := a, jacobian := b\<rparr>) x = work g x"
    "work g NaN = g\<lparr>s := NaN, jacobian := NaN\<rparr>"
    "work \<lparr>mass = Finite 1, width = Finite 0, s = s0, jacobian = j0\<rparr> (Finite (1 / 2)) =
       \<lparr>mass = Finite 1, width = Finite 0, s = Finite 1, jacobian = Finite 0\<rparr>"
    "work \<lparr>mass = Finite 0, width = Finite 0, s = s0, jacobian = j0\<rparr> x =
       \<lparr>mass = Finite 0, width = Finite 0, s = NaN, jacobian = NaN\<rparr>"
    by (rule work_overwrites work_NaN_sample work_zero_width work_zero_mass_zero_width)+
  show ?thesis
    using e p r n1 n2 work_sample_two [of s0 j0] by blast
qed

text \<open>
  C10. The constructor stores the mass and width rounded to float, and \<open>work\<close> computes
  from the rounded values, which are floats: the configured values count only through
  their roundings. The double \<open>1 + 2\<^sup>-\<^sup>3\<^sup>0\<close> is stored as 1, which differs from it, and
  every call then gives what it gives for the configured mass 1.
\<close>

theorem ctor_narrows_to_float:
  "mass (BreitWignerGenerator_ctor m w s0 j0) = to_float m \<and>
   width (BreitWignerGenerator_ctor m w s0 j0) = to_float w \<and>
   work (BreitWignerGenerator_ctor m w s0 j0) x =
     work (BreitWignerGenerator_ctor (to_float m) (to_float w) s0 j0) x \<and>
   is_float (mass (BreitWignerGenerator_ctor m w s0 j0)) \<and>
   is_float (width (BreitWignerGenerator_ctor m w s0 j0)) \<and>
   is_double (Finite (1 + 1 / 2 ^ 30)) \<and>
   mass (BreitWignerGenerator_ctor (Finite (1 + 1 / 2 ^ 30)) w s0 j0) = Finite 1 \<and>
   mass (BreitWignerGenerator_ctor (Finite (1 + 1 / 2 ^ 30)) w s0 j0) \<noteq> Finite (1 + 1 / 2 ^ 30) \<and>
   work (BreitWignerGenerator_ctor (Finite (1 + 1 / 2 ^ 30)) w s0 j0) x =
     work (BreitWignerGenerator_ctor (Finite 1) w s0 j0) x"
proof -
  have a: "mass (BreitWignerGenerator_ctor m w s0 j0) = to_float m"
    "width (BreitWignerGenerator_ctor m w s0 j0) = to_float w"
    by (simp_all add: BreitWignerGenerator_ctor_def)
  have b: "work (BreitWignerGenerator_ctor m w s0 j0) x =
      work (BreitWignerGenerator_ctor (to_float m) (to_float w) s0 j0) x"
    by (simp add: BreitWignerGenerator_ctor_def to_float_twice)
  have c: "mass (BreitWignerGenerator_ctor (Finite (1 + 1 / 2 ^ 30)) w s0 j0) = Finite 1"
    unfolding BreitWignerGenerator_ctor_def to_float_example by simp
  have d: "mass (BreitWignerGenerator_ctor (Finite (1 + 1 / 2 ^ 30)) w s0 j0) \<noteq>
      Finite (1 + 1 / 2 ^ 30)"
    unfolding c by simp
  have e: "is_float (mass (BreitWignerGenerator_ctor m w s0 j0))"
    "is_float (width (BreitWignerGenerator_ctor m w s0 j0))"
    unfolding a by (rule to_float_is_float)+
  have f: "work (BreitWignerGenerator_ctor (Finite (1 + 1 / 2 ^ 30)) w s0 j0) x =
      work (BreitWignerGenerator_ctor (Finite 1) w s0 j0) x"
    unfolding BreitWignerGenerator_ctor_def to_float_example to_float_one ..
  show ?thesis
    using a b c d e f is_double_example by blast
qed

end
